theory Spec2Isabelle
  imports Main "HOL-Library.Sublist"
begin

section \<open>Strings\<close>

text \<open>
  Python \<open>str\<close> values are modelled as \<open>string\<close>, a list of 8-bit characters. The character
  classes below are the ASCII part of what Python uses: \<open>str.strip()\<close>, \<open>\s\<close> and
  \<open>\S\<close> treat the six ASCII blanks and the four separators 0x1C..0x1F as whitespace,
  \<open>\d\<close> matches \<open>0\<close>..\<open>9\<close>, and \<open>str.lower()\<close> maps \<open>A\<close>..\<open>Z\<close> to
  \<open>a\<close>..\<open>z\<close>. Whitespace, digits and case pairs outside ASCII are not modelled.
\<close>

definition is_space :: "char \<Rightarrow> bool" where
  "is_space c \<longleftrightarrow>
     c \<in> {CHR 0x09, CHR 0x0A, CHR 0x0B, CHR 0x0C, CHR 0x0D,
          CHR 0x1C, CHR 0x1D, CHR 0x1E, CHR 0x1F, CHR 0x20}"

definition is_digit :: "char \<Rightarrow> bool" where
  "is_digit c \<longleftrightarrow> c \<in> set ''0123456789''"

definition lower_char :: "char \<Rightarrow> char" where
  "lower_char c =
     (case map_of (zip ''ABCDEFGHIJKLMNOPQRSTUVWXYZ'' ''abcdefghijklmnopqrstuvwxyz'') c of
        Some l \<Rightarrow> l
      | None \<Rightarrow> c)"

text \<open>\<open>s.lower()\<close>\<close>

definition lower :: "string \<Rightarrow> string" where
  "lower s = map lower_char s"

text \<open>\<open>s.strip()\<close>\<close>

definition strip :: "string \<Rightarrow> string" where
  "strip s = rev (dropWhile is_space (rev (dropWhile is_space s)))"

text \<open>\<open>pat in s\<close>: \<open>pat\<close> occurs in \<open>s\<close> as a contiguous substring.\<close>

fun contains :: "string \<Rightarrow> string \<Rightarrow> bool" where
  "contains pat [] = (pat = [])"
| "contains pat (c # cs) = (prefix pat (c # cs) \<or> contains pat cs)"

text \<open>\<open>sep.join(parts)\<close>\<close>

fun join :: "string \<Rightarrow> string list \<Rightarrow> string" where
  "join sep [] = []"
| "join sep [x] = x"
| "join sep (x # y # ys) = x @ sep @ join sep (y # ys)"

text \<open>\<open>str(n)\<close> for a natural number and for an integer.\<close>

definition digit_char :: "nat \<Rightarrow> char" where
  "digit_char d = ''0123456789'' ! d"

fun str_of_nat :: "nat \<Rightarrow> string" where
  "str_of_nat n = (if n < 10 then [digit_char n] else str_of_nat (n div 10) @ [digit_char (n mod 10)])"

declare str_of_nat.simps [simp del]

definition str_of_int :: "int \<Rightarrow> string" where
  "str_of_int i = (if i < 0 then ''-'' @ str_of_nat (nat (- i)) else str_of_nat (nat i))"

text \<open>
  \<open>int(s)\<close> on a string of decimal digits (the only strings the program converts: they are
  what the group \<open>(\d+)\<close> captured). The interpreter's optional limit on the number of digits
  of a converted string is not modelled.
\<close>

definition digit_val :: "char \<Rightarrow> nat" where
  "digit_val c =
     (case map_of (zip ''0123456789'' [0, 1, 2, 3, 4, 5, 6, 7, 8, 9]) c of
        Some d \<Rightarrow> d
      | None \<Rightarrow> 0)"

definition int_of_digits :: "string \<Rightarrow> nat" where
  "int_of_digits s = foldl (\<lambda>n c. 10 * n + digit_val c) 0 s"

section \<open>Parsed documents\<close>

text \<open>
  \<open>BeautifulSoup(response.text, "html.parser")\<close> yields a tree of tags and strings. A tag has a
  name, attributes and children; a \<open>Text\<close> node is a string that \<open>get_text\<close> yields (comments
  and the contents of \<open>script\<close> and \<open>style\<close> are not such strings and are left out of the
  tree). Attribute values are the raw strings of the markup. The soup itself is the root
  tag, named \<open>[document]\<close>.
\<close>

datatype node =
    Text string
  | Element (tag: string) (attrs: "(string \<times> string) list") (children: "node list")

text \<open>\<open>tag.descendants\<close>: every node below \<open>tag\<close>, in document order.\<close>

fun descendants :: "node \<Rightarrow> node list" where
  "descendants (Text s) = []"
| "descendants (Element t a cs) = concat (map (\<lambda>c. c # descendants c) cs)"

fun is_tag :: "string \<Rightarrow> node \<Rightarrow> bool" where
  "is_tag name (Text s) = False"
| "is_tag name (Element t a cs) = (t = name)"

text \<open>
  \<open>tag.get(key)\<close>: the attribute's value, \<open>None\<close> when the tag has no such attribute
  (\<open>tag.has_attr(key)\<close> is false exactly then).
\<close>

fun get_attr :: "node \<Rightarrow> string \<Rightarrow> string option" where
  "get_attr (Text s) key = None"
| "get_attr (Element t a cs) key = map_of a key"

text \<open>
  The value of \<open>class\<close> is kept by the parser as the list of its whitespace-separated
  tokens (the maximal runs of non-whitespace characters).
\<close>

fun split_ws :: "string \<Rightarrow> string \<Rightarrow> string list" where
  "split_ws cur [] = (if cur = [] then [] else [cur])"
| "split_ws cur (c # cs) =
     (if is_space c then (if cur = [] then split_ws [] cs else cur # split_ws [] cs)
      else split_ws (cur @ [c]) cs)"

text \<open>
  \<open>find_all(name, key=value)\<close>: the descendants with that tag name whose attribute \<open>key\<close>
  equals \<open>value\<close>. \<open>find_all(name, class_=value)\<close>: one of the class tokens equals
  \<open>value\<close>, or the tokens joined by single blanks do. \<open>find_all(name)\<close>: all descendants
  with that name. \<open>find\<close> is the first result of \<open>find_all\<close>, or \<open>None\<close>.
\<close>

definition attr_is :: "string \<Rightarrow> string \<Rightarrow> node \<Rightarrow> bool" where
  "attr_is key v n \<longleftrightarrow> get_attr n key = Some v"

definition class_is :: "string \<Rightarrow> node \<Rightarrow> bool" where
  "class_is v n \<longleftrightarrow>
     (case get_attr n ''class'' of
        None \<Rightarrow> False
      | Some raw \<Rightarrow> (let toks = split_ws [] raw in v \<in> set toks \<or> join '' '' toks = v))"

definition find_all :: "string \<Rightarrow> (node \<Rightarrow> bool) \<Rightarrow> node \<Rightarrow> node list" where
  "find_all name p root = filter (\<lambda>n. is_tag name n \<and> p n) (descendants root)"

definition find :: "string \<Rightarrow> (node \<Rightarrow> bool) \<Rightarrow> node \<Rightarrow> node option" where
  "find name p root = (case find_all name p root of [] \<Rightarrow> None | n # _ \<Rightarrow> Some n)"

definition any_tag :: "node \<Rightarrow> bool" where
  "any_tag n \<longleftrightarrow> True"

text \<open>\<open>tag._all_strings()\<close>: the strings below a tag, in document order.\<close>

fun all_strings :: "node \<Rightarrow> string list" where
  "all_strings (Text s) = []"
| "all_strings (Element t a cs) =
     concat (map (\<lambda>c. case c of Text s \<Rightarrow> [s] | Element _ _ _ \<Rightarrow> all_strings c) cs)"

text \<open>
  \<open>tag.get_text(strip=True)\<close>: every string is stripped, strings that are empty after that
  are dropped, and the rest are concatenated with no separator.
\<close>

definition get_text_strip :: "node \<Rightarrow> string" where
  "get_text_strip n = concat (filter (\<lambda>s. s \<noteq> []) (map strip (all_strings n)))"

text \<open>\<open>tag.get_text(separator=sep)\<close>\<close>

definition get_text_sep :: "string \<Rightarrow> node \<Rightarrow> string" where
  "get_text_sep sep n = join sep (all_strings n)"

section \<open>Data model\<close>

text \<open>The class \<open>CFP\<close>: six required \<open>str\<close> fields.\<close>

record CFP =
  cfp_title :: string
  cfp_acronym :: string
  cfp_when :: string
  cfp_where :: string
  cfp_deadline :: string
  cfp_description :: string

text \<open>
  The class \<open>CFPMatchResult\<close>: a required \<open>int\<close> and a required \<open>str\<close>. The fields
  carry a description and no bound, so every integer is a valid \<open>score\<close>.
\<close>

record CFPMatchResult =
  score :: int
  justification :: string

text \<open>
  The dictionaries appended to \<open>evaluated_results\<close>: keys in insertion order, values a
  string or an integer.
\<close>

datatype cell = VStr string | VInt int

type_synonym match_record = "(string \<times> cell) list"

definition match_record :: "CFP \<Rightarrow> CFPMatchResult \<Rightarrow> match_record" where
  "match_record cfp evaluation =
     [(''Title'', VStr (cfp_title cfp)),
      (''Acronym'', VStr (cfp_acronym cfp)),
      (''When'', VStr (cfp_when cfp)),
      (''Where'', VStr (cfp_where cfp)),
      (''Deadline'', VStr (cfp_deadline cfp)),
      (''Score'', VInt (score evaluation)),
      (''Justification'', VStr (justification evaluation))]"

section \<open>Detail extractor: the markup part of \<open>parse_cfp_detail_page\<close>\<close>

text \<open>
  The body of the loop over the rows of a table: the three running values \<open>when\<close>,
  \<open>where\<close> and \<open>deadline\<close> are passed along as a triple.
\<close>

definition scan_row :: "node \<Rightarrow> string \<times> string \<times> string \<Rightarrow> string \<times> string \<times> string" where
  "scan_row row acc =
     (case acc of (when, wher, deadline) \<Rightarrow>
        (case find ''th'' any_tag row of
           None \<Rightarrow> acc
         | Some header \<Rightarrow>
             (let header_text = lower (get_text_strip header) in
              case find ''td'' any_tag row of
                None \<Rightarrow> acc
              | Some cell \<Rightarrow>
                  (let cell_text = get_text_strip cell in
                   if contains ''when'' header_text then (cell_text, wher, deadline)
                   else if contains ''where'' header_text then (when, cell_text, deadline)
                   else if contains ''submission deadline'' header_text then (when, wher, cell_text)
                   else acc))))"

definition scan_table :: "node \<Rightarrow> string \<times> string \<times> string \<Rightarrow> string \<times> string \<times> string" where
  "scan_table table acc = foldl (\<lambda>a row. scan_row row a) acc (find_all ''tr'' any_tag table)"

definition scan_tables :: "node \<Rightarrow> string \<times> string \<times> string" where
  "scan_tables soup =
     foldl (\<lambda>a table. scan_table table a) (''N/A'', ''N/A'', ''N/A'')
       (find_all ''table'' (class_is ''gglu'') soup)"

definition extract_title :: "node \<Rightarrow> string" where
  "extract_title soup =
     (case find ''span'' (attr_is ''property'' ''v:description'') soup of
        Some title_tag \<Rightarrow> get_text_strip title_tag
      | None \<Rightarrow> ''N/A'')"

definition extract_acronym :: "node \<Rightarrow> string" where
  "extract_acronym soup =
     (case find ''span'' (attr_is ''property'' ''v:summary'') soup of
        Some acronym_tag \<Rightarrow>
          (case get_attr acronym_tag ''content'' of
             Some content \<Rightarrow> strip content
           | None \<Rightarrow> ''N/A'')
      | None \<Rightarrow> ''N/A'')"

definition extract_description :: "node \<Rightarrow> string" where
  "extract_description soup =
     (case find ''div'' (class_is ''cfp'') soup of
        Some cfp_div \<Rightarrow> strip (get_text_sep [CHR 0x0A] cfp_div)
      | None \<Rightarrow> ''N/A'')"

definition extract_cfp :: "node \<Rightarrow> CFP" where
  "extract_cfp soup =
     (case scan_tables soup of (when, wher, deadline) \<Rightarrow>
        \<lparr>cfp_title = extract_title soup,
         cfp_acronym = extract_acronym soup,
         cfp_when = when,
         cfp_where = wher,
         cfp_deadline = deadline,
         cfp_description = extract_description soup\<rparr>)"

section \<open>The regular expression of the page-count resolver\<close>

text \<open>
  \<open>re.search(r"Total of\s+\d+\s+CFPs in\s+(\d+)\s+pages", text)\<close>, as the backtracking
  matcher runs it. A literal must be a prefix of the input. A greedy \<open>c+\<close> consumes one
  character of the class, first tries to consume more, and hands over to the rest of the
  pattern (the continuation) where the longer attempts have failed; the continuation
  receives what \<open>c+\<close> matched and the remaining input.
\<close>

definition rx_lit :: "string \<Rightarrow> string \<Rightarrow> (string \<Rightarrow> 'a option) \<Rightarrow> 'a option" where
  "rx_lit l s k = (if prefix l s then k (drop (length l) s) else None)"

fun rx_plus :: "(char \<Rightarrow> bool) \<Rightarrow> string \<Rightarrow> string \<Rightarrow> (string \<Rightarrow> string \<Rightarrow> 'a option) \<Rightarrow> 'a option" where
  "rx_plus p acc [] k = None"
| "rx_plus p acc (c # cs) k =
     (if p c then
        (case rx_plus p (acc @ [c]) cs k of
           Some r \<Rightarrow> Some r
         | None \<Rightarrow> k (acc @ [c]) cs)
      else None)"

text \<open>A match of the whole pattern that starts at the head of \<open>s\<close>; the result is group 1.\<close>

definition match_here :: "string \<Rightarrow> string option" where
  "match_here s =
     rx_lit ''Total of'' s (\<lambda>s.
     rx_plus is_space [] s (\<lambda>_ s.
     rx_plus is_digit [] s (\<lambda>_ s.
     rx_plus is_space [] s (\<lambda>_ s.
     rx_lit ''CFPs in'' s (\<lambda>s.
     rx_plus is_space [] s (\<lambda>_ s.
     rx_plus is_digit [] s (\<lambda>g s.
     rx_plus is_space [] s (\<lambda>_ s.
     rx_lit ''pages'' s (\<lambda>_. Some g)))))))))"

text \<open>\<open>re.search\<close>: the match at the leftmost position that has one.\<close>

fun re_search :: "string \<Rightarrow> string option" where
  "re_search [] = match_here []"
| "re_search (c # cs) =
     (case match_here (c # cs) of Some g \<Rightarrow> Some g | None \<Rightarrow> re_search cs)"

text \<open>
  The loop of \<open>get_total_pages\<close> over the centred cells: \<open>Some\<close> is the early
  \<open>return total_pages\<close>, \<open>None\<close> is falling out of the loop.
\<close>

fun scan_cells :: "node list \<Rightarrow> nat option" where
  "scan_cells [] = None"
| "scan_cells (td # tds) =
     (let text = get_text_strip td in
      if contains ''Total of'' text then
        (case re_search text of
           Some g \<Rightarrow> Some (int_of_digits g)
         | None \<Rightarrow> scan_cells tds)
      else scan_cells tds)"

section \<open>Listing scraper: the markup part of \<open>search_wikicfp_page\<close>\<close>

definition base_url :: string where
  "base_url = ''http://www.wikicfp.com''"

text \<open>The filter \<open>href=lambda href: href and "event.showcfp" in href\<close>.\<close>

definition href_matches :: "node \<Rightarrow> bool" where
  "href_matches n \<longleftrightarrow>
     (case get_attr n ''href'' of
        None \<Rightarrow> False
      | Some href \<Rightarrow> href \<noteq> [] \<and> contains ''event.showcfp'' href)"

definition detail_links :: "node \<Rightarrow> node list" where
  "detail_links soup = find_all ''a'' href_matches soup"

text \<open>
  \<open>link.get("href")\<close> is never \<open>None\<close> on a link that passed the filter; the model gives
  the empty string there.
\<close>

definition link_href :: "node \<Rightarrow> string" where
  "link_href link = (case get_attr link ''href'' of Some href \<Rightarrow> href | None \<Rightarrow> [])"

definition detail_urls :: "node \<Rightarrow> string set" where
  "detail_urls soup = set (map (\<lambda>link. base_url @ link_href link) (detail_links soup))"

section \<open>Environment, state and effects\<close>

text \<open>
  What a call into the outside world can raise. \<open>except Exception\<close> catches the first
  kind; the second stands for the exceptions that derive from \<open>BaseException\<close> only
  (\<open>KeyboardInterrupt\<close>, \<open>SystemExit\<close>), which it lets through.
\<close>

datatype py_exc = Exception string | BaseException string

fun caught :: "py_exc \<Rightarrow> bool" where
  "caught (Exception s) = True"
| "caught (BaseException s) = False"

text \<open>
  The outside world has a state of its own, of type \<open>'w\<close>: a call may answer differently
  each time. \<open>read_text path\<close> is \<open>open(path, "r", encoding="utf-8").read()\<close>;
  \<open>http_get url\<close> is \<open>requests.get(url)\<close> followed by the parse of \<open>response.text\<close>;
  \<open>llm_invoke prompt\<close> is the call of the model with structured output, which returns a
  validated \<open>CFPMatchResult\<close> or raises; \<open>set_iter\<close> is the order in which a Python
  \<open>set\<close> of strings is iterated.
\<close>

record 'w env =
  read_text :: "string \<Rightarrow> 'w \<Rightarrow> (py_exc + string) \<times> 'w"
  http_get :: "string \<Rightarrow> 'w \<Rightarrow> (py_exc + node) \<times> 'w"
  llm_invoke :: "string \<Rightarrow> 'w \<Rightarrow> (py_exc + CFPMatchResult) \<times> 'w"
  set_iter :: "string set \<Rightarrow> string list"

text \<open>The messages of the program's \<open>logger\<close> calls, with their arguments.\<close>

datatype level = DEBUG | INFO | WARNING | ERROR

datatype msg =
    TotalPagesLookup string
  | TotalPagesFound nat
  | TotalPagesDefault
  | SearchingPage nat string
  | FoundOnPage nat nat
  | OpeningCFP string
  | ExtractedCFP string string string string string
  | EvaluatingCFP string
  | RelevantCFP string int
  | NotRelevantCFP string int
  | ProcessingError string py_exc
  | SavedTemporarily string
  | SavedFinal string
  | NoRelevantCFP
  | AbstractReadError py_exc

text \<open>
  The effects of a run, in the order they happen: a log line, an
  \<open>evaluated_results.append\<close>, and a \<open>to_csv\<close> that writes a whole file.
\<close>

datatype event = Log level msg | Append match_record | WriteFile string string

text \<open>
  The state of a run: the list \<open>evaluated_results\<close>, the files (path to content), the
  effects so far, and the state of the outside world. A write is taken to succeed and to
  replace the file's content as a whole.
\<close>

record 'w state =
  evaluated_results :: "match_record list"
  files :: "string \<rightharpoonup> string"
  trace :: "event list"
  world :: "'w"

definition log :: "level \<Rightarrow> msg \<Rightarrow> 'w state \<Rightarrow> 'w state" where
  "log l m st = st\<lparr>trace := trace st @ [Log l m]\<rparr>"

definition append_result :: "match_record \<Rightarrow> 'w state \<Rightarrow> 'w state" where
  "append_result r st =
     st\<lparr>evaluated_results := evaluated_results st @ [r], trace := trace st @ [Append r]\<rparr>"

definition write_file :: "string \<Rightarrow> string \<Rightarrow> 'w state \<Rightarrow> 'w state" where
  "write_file path content st =
     st\<lparr>files := (files st)(path \<mapsto> content), trace := trace st @ [WriteFile path content]\<rparr>"

definition fetch_soup :: "'w env \<Rightarrow> string \<Rightarrow> 'w state \<Rightarrow> (py_exc + node) \<times> 'w state" where
  "fetch_soup env url st = (case http_get env url (world st) of (r, w) \<Rightarrow> (r, st\<lparr>world := w\<rparr>))"

section \<open>The three scraping functions\<close>

definition get_total_pages :: "'w env \<Rightarrow> string \<Rightarrow> 'w state \<Rightarrow> (py_exc + nat) \<times> 'w state" where
  "get_total_pages env keyword st =
     (let search_url = ''http://www.wikicfp.com/cfp/call?conference='' @ keyword;
          st1 = log INFO (TotalPagesLookup keyword) st
      in case fetch_soup env search_url st1 of
           (Inl e, st2) \<Rightarrow> (Inl e, st2)
         | (Inr soup, st2) \<Rightarrow>
             (case scan_cells (find_all ''td'' (attr_is ''align'' ''center'') soup) of
                Some total_pages \<Rightarrow> (Inr total_pages, log INFO (TotalPagesFound total_pages) st2)
              | None \<Rightarrow> (Inr 1, log WARNING TotalPagesDefault st2)))"

definition search_wikicfp_page ::
  "'w env \<Rightarrow> string \<Rightarrow> nat \<Rightarrow> 'w state \<Rightarrow> (py_exc + string set) \<times> 'w state" where
  "search_wikicfp_page env keyword page st =
     (let search_url =
            ''http://www.wikicfp.com/cfp/call?conference='' @ keyword @ ''&page='' @ str_of_nat page;
          st1 = log INFO (SearchingPage page keyword) st
      in case fetch_soup env search_url st1 of
           (Inl e, st2) \<Rightarrow> (Inl e, st2)
         | (Inr soup, st2) \<Rightarrow>
             (let urls = detail_urls soup
              in (Inr urls, log INFO (FoundOnPage (card urls) page) st2)))"

definition parse_cfp_detail_page :: "'w env \<Rightarrow> string \<Rightarrow> 'w state \<Rightarrow> (py_exc + CFP) \<times> 'w state" where
  "parse_cfp_detail_page env url st =
     (let st1 = log INFO (OpeningCFP url) st
      in case fetch_soup env url st1 of
           (Inl e, st2) \<Rightarrow> (Inl e, st2)
         | (Inr soup, st2) \<Rightarrow>
             (let cfp = extract_cfp soup
              in (Inr cfp,
                  log DEBUG
                    (ExtractedCFP (cfp_title cfp) (cfp_acronym cfp) (cfp_when cfp) (cfp_where cfp)
                       (cfp_deadline cfp))
                    st2)))"

section \<open>Relevance scorer\<close>

text \<open>
  \<open>prompt_evaluate\<close>: the template is a sequence of literal text and placeholders;
  formatting replaces each placeholder by the value the input dictionary has under its
  name, and raises when there is none. Characters outside ASCII are the bytes of their
  UTF-8 encoding.
\<close>

datatype piece = Lit string | Var string

definition prompt_template :: "piece list" where
  "prompt_template =
    [Lit ([CHR 0x0A] @ ''Vous '' @ [CHR 0xC3, CHR 0xAA] @ ''tes un expert en '' @
        [CHR 0xC3, CHR 0xA9] @ ''valuation de la pertinence des conf'' @
        [CHR 0xC3, CHR 0xA9] @ ''rences pour un article scientifique.'' @
        [CHR 0x0A, CHR 0x0A] @ ''Voici le r'' @ [CHR 0xC3, CHR 0xA9] @ ''sum'' @
        [CHR 0xC3, CHR 0xA9] @ '' de notre travail :'' @ [CHR 0x0A]),
     Var ''abstract'',
     Lit ([CHR 0x0A, CHR 0x0A] @ ''Et voici les d'' @ [CHR 0xC3, CHR 0xA9] @
        ''tails de la conf'' @ [CHR 0xC3, CHR 0xA9] @ ''rence :'' @ [CHR 0x0A] @
        ''- Titre : ''),
     Var ''title'',
     Lit ([CHR 0x0A] @ ''- Acronyme : ''),
     Var ''acronym'',
     Lit ([CHR 0x0A] @ ''- Quand : ''),
     Var ''when'',
     Lit ([CHR 0x0A] @ ''- O'' @ [CHR 0xC3, CHR 0xB9] @ '' : ''),
     Var ''where'',
     Lit ([CHR 0x0A] @ ''- Date limite : ''),
     Var ''deadline'',
     Lit ([CHR 0x0A, CHR 0x0A] @ ''Veuillez '' @ [CHR 0xC3, CHR 0xA9] @
        ''valuer la pertinence de cette conf'' @ [CHR 0xC3, CHR 0xA9] @
        ''rence pour notre travail sur une '' @ [CHR 0xC3, CHR 0xA9] @ ''chelle de 0 '' @
        [CHR 0xC3, CHR 0xA0] @ '' 10.'' @ [CHR 0x0A] @
        ''Fournissez uniquement un objet JSON avec les cl'' @ [CHR 0xC3, CHR 0xA9] @ ''s '' @
        [CHR 0x22] @ ''score'' @ [CHR 0x22] @ '' (un entier entre 0 et 10) et '' @
        [CHR 0x22] @ ''justification'' @ [CHR 0x22] @ '' (un court texte expliquant votre '' @
        [CHR 0xC3, CHR 0xA9] @ ''valuation).'' @ [CHR 0x0A])]"

fun format_prompt :: "piece list \<Rightarrow> (string \<times> string) list \<Rightarrow> py_exc + string" where
  "format_prompt [] inputs = Inr []"
| "format_prompt (Lit s # ps) inputs =
     (case format_prompt ps inputs of Inl e \<Rightarrow> Inl e | Inr r \<Rightarrow> Inr (s @ r))"
| "format_prompt (Var v # ps) inputs =
     (case map_of inputs v of
        None \<Rightarrow> Inl (Exception ''KeyError'')
      | Some x \<Rightarrow> (case format_prompt ps inputs of Inl e \<Rightarrow> Inl e | Inr r \<Rightarrow> Inr (x @ r)))"

text \<open>The dictionary that \<open>main\<close> passes to \<open>chain_evaluate.invoke\<close>.\<close>

definition evaluate_inputs :: "string \<Rightarrow> CFP \<Rightarrow> (string \<times> string) list" where
  "evaluate_inputs abstract_text cfp =
     [(''abstract'', abstract_text),
      (''title'', cfp_title cfp),
      (''acronym'', cfp_acronym cfp),
      (''when'', cfp_when cfp),
      (''where'', cfp_where cfp),
      (''deadline'', cfp_deadline cfp)]"

text \<open>\<open>chain_evaluate.invoke\<close>: format the prompt, then call the model with it.\<close>

definition chain_evaluate ::
  "'w env \<Rightarrow> (string \<times> string) list \<Rightarrow> 'w state \<Rightarrow> (py_exc + CFPMatchResult) \<times> 'w state" where
  "chain_evaluate env inputs st =
     (case format_prompt prompt_template inputs of
        Inl e \<Rightarrow> (Inl e, st)
      | Inr prompt \<Rightarrow>
          (case llm_invoke env prompt (world st) of (r, w) \<Rightarrow> (r, st\<lparr>world := w\<rparr>)))"

section \<open>Result sink\<close>

text \<open>
  \<open>pd.DataFrame(evaluated_results)\<close> on a list of dictionaries: the columns are the keys in
  the order of their first appearance, and a row has the value of its dictionary under
  each column (an empty field where the dictionary has none).
\<close>

fun first_seen :: "string list \<Rightarrow> string list \<Rightarrow> string list" where
  "first_seen seen [] = []"
| "first_seen seen (k # ks) =
     (if k \<in> set seen then first_seen seen ks else k # first_seen (k # seen) ks)"

definition df_columns :: "match_record list \<Rightarrow> string list" where
  "df_columns recs = first_seen [] (concat (map (map fst) recs))"

text \<open>
  \<open>df.to_csv(path, index=False, encoding="utf-8")\<close>: a header line with the column names and
  one line per row, fields separated by commas, lines ended by a line feed. A field that
  contains a comma, a double quote, a line feed or a carriage return is written between
  double quotes, with every double quote in it doubled.
\<close>

definition csv_special :: "char \<Rightarrow> bool" where
  "csv_special c \<longleftrightarrow> c \<in> {CHR '','', CHR 0x22, CHR 0x0A, CHR 0x0D}"

definition csv_field :: "string \<Rightarrow> string" where
  "csv_field s =
     (if \<exists>c \<in> set s. csv_special c
      then [CHR 0x22] @ concat (map (\<lambda>c. if c = CHR 0x22 then [c, c] else [c]) s) @ [CHR 0x22]
      else s)"

definition csv_line :: "string list \<Rightarrow> string" where
  "csv_line vals = join '','' (map csv_field vals) @ [CHR 0x0A]"

fun cell_text :: "cell option \<Rightarrow> string" where
  "cell_text None = []"
| "cell_text (Some (VStr s)) = s"
| "cell_text (Some (VInt i)) = str_of_int i"

definition csv_row :: "string list \<Rightarrow> match_record \<Rightarrow> string" where
  "csv_row columns r = csv_line (map (\<lambda>c. cell_text (map_of r c)) columns)"

definition to_csv :: "match_record list \<Rightarrow> string" where
  "to_csv recs = csv_line (df_columns recs) @ concat (map (csv_row (df_columns recs)) recs)"

text \<open>The save after each page, and the one at the end of \<open>main\<close>.\<close>

definition save_page :: "string \<Rightarrow> 'w state \<Rightarrow> 'w state" where
  "save_page output st =
     (if evaluated_results st \<noteq> []
      then log INFO (SavedTemporarily output)
             (write_file output (to_csv (evaluated_results st)) st)
      else st)"

definition save_final :: "string \<Rightarrow> 'w state \<Rightarrow> 'w state" where
  "save_final output st =
     (if evaluated_results st \<noteq> []
      then log INFO (SavedFinal output)
             (write_file output (to_csv (evaluated_results st)) st)
      else log WARNING NoRelevantCFP st)"

section \<open>Orchestrator: \<open>main\<close>\<close>

text \<open>
  The body of the \<open>try\<close> of the inner loop. \<open>Some e\<close> is the exception the body raised,
  \<open>None\<close> its normal end.
\<close>

definition try_body :: "'w env \<Rightarrow> string \<Rightarrow> string \<Rightarrow> 'w state \<Rightarrow> py_exc option \<times> 'w state" where
  "try_body env abstract_text url st =
     (case parse_cfp_detail_page env url st of
        (Inl e, st1) \<Rightarrow> (Some e, st1)
      | (Inr cfp, st1) \<Rightarrow>
          (let st2 = log INFO (EvaluatingCFP (cfp_title cfp)) st1
           in case chain_evaluate env (evaluate_inputs abstract_text cfp) st2 of
                (Inl e, st3) \<Rightarrow> (Some e, st3)
              | (Inr evaluation, st3) \<Rightarrow>
                  if score evaluation > 5
                  then (None,
                        log INFO (RelevantCFP (cfp_title cfp) (score evaluation))
                          (append_result (match_record cfp evaluation) st3))
                  else (None, log INFO (NotRelevantCFP (cfp_title cfp) (score evaluation)) st3)))"

text \<open>The \<open>try\<close> with its handler \<open>except Exception as e\<close>.\<close>

definition process_url :: "'w env \<Rightarrow> string \<Rightarrow> string \<Rightarrow> 'w state \<Rightarrow> py_exc option \<times> 'w state" where
  "process_url env abstract_text url st =
     (case try_body env abstract_text url st of
        (None, st1) \<Rightarrow> (None, st1)
      | (Some e, st1) \<Rightarrow>
          if caught e then (None, log ERROR (ProcessingError url e) st1) else (Some e, st1))"

text \<open>The inner loop, over the URLs of one page.\<close>

fun for_urls :: "'w env \<Rightarrow> string \<Rightarrow> string list \<Rightarrow> 'w state \<Rightarrow> py_exc option \<times> 'w state" where
  "for_urls env abstract_text [] st = (None, st)"
| "for_urls env abstract_text (url # urls) st =
     (case process_url env abstract_text url st of
        (None, st1) \<Rightarrow> for_urls env abstract_text urls st1
      | (Some e, st1) \<Rightarrow> (Some e, st1))"

text \<open>The body of the outer loop: one page.\<close>

definition process_page ::
  "'w env \<Rightarrow> string \<Rightarrow> string \<Rightarrow> string \<Rightarrow> nat \<Rightarrow> 'w state \<Rightarrow> py_exc option \<times> 'w state" where
  "process_page env abstract_text keyword output page st =
     (case search_wikicfp_page env keyword page st of
        (Inl e, st1) \<Rightarrow> (Some e, st1)
      | (Inr urls, st1) \<Rightarrow>
          (case for_urls env abstract_text (set_iter env urls) st1 of
             (Some e, st2) \<Rightarrow> (Some e, st2)
           | (None, st2) \<Rightarrow> (None, save_page output st2)))"

fun for_pages ::
  "'w env \<Rightarrow> string \<Rightarrow> string \<Rightarrow> string \<Rightarrow> nat list \<Rightarrow> 'w state \<Rightarrow> py_exc option \<times> 'w state" where
  "for_pages env abstract_text keyword output [] st = (None, st)"
| "for_pages env abstract_text keyword output (page # pages) st =
     (case process_page env abstract_text keyword output page st of
        (None, st1) \<Rightarrow> for_pages env abstract_text keyword output pages st1
      | (Some e, st1) \<Rightarrow> (Some e, st1))"

text \<open>
  \<open>main\<close>, after the command line has been parsed into \<open>abstract_file\<close>, \<open>keyword\<close> and
  \<open>output\<close>. A run starts with the files and the world it finds and with no effects;
  it ends normally (\<open>None\<close>) or with the exception that nothing caught.
\<close>

definition init_state :: "(string \<rightharpoonup> string) \<Rightarrow> 'w \<Rightarrow> 'w state" where
  "init_state fs w = \<lparr>evaluated_results = [], files = fs, trace = [], world = w\<rparr>"

definition read_abstract :: "'w env \<Rightarrow> string \<Rightarrow> 'w state \<Rightarrow> (py_exc + string) \<times> 'w state" where
  "read_abstract env path st =
     (case read_text env path (world st) of
        (Inl e, w) \<Rightarrow> (Inl e, st\<lparr>world := w\<rparr>)
      | (Inr text, w) \<Rightarrow> (Inr (strip text), st\<lparr>world := w\<rparr>))"

definition main ::
  "'w env \<Rightarrow> string \<Rightarrow> string \<Rightarrow> string \<Rightarrow> (string \<rightharpoonup> string) \<Rightarrow> 'w \<Rightarrow> py_exc option \<times> 'w state" where
  "main env abstract_file keyword output fs w =
     (case read_abstract env abstract_file (init_state fs w) of
        (Inl e, st1) \<Rightarrow>
          if caught e then (None, log ERROR (AbstractReadError e) st1) else (Some e, st1)
      | (Inr abstract_text, st1) \<Rightarrow>
          (case get_total_pages env keyword st1 of
             (Inl e, st2) \<Rightarrow> (Some e, st2)
           | (Inr total_pages, st2) \<Rightarrow>
               (case for_pages env abstract_text keyword output [1..<total_pages + 1] st2 of
                  (Some e, st3) \<Rightarrow> (Some e, st3)
                | (None, st3) \<Rightarrow> (None, save_final output st3))))"

section \<open>Reading a trace\<close>

text \<open>The records appended by the effects of a trace, in order.\<close>

fun appended :: "event list \<Rightarrow> match_record list" where
  "appended [] = []"
| "appended (Append r # es) = r # appended es"
| "appended (Log l m # es) = appended es"
| "appended (WriteFile p c # es) = appended es"


fun is_write :: "event \<Rightarrow> bool" where
  "is_write (WriteFile p c) = True"
| "is_write e = False"

fun is_log :: "event \<Rightarrow> bool" where
  "is_log (Log l m) = True"
| "is_log e = False"

text \<open>The files after the writes of a trace.\<close>

fun replay :: "(string \<rightharpoonup> string) \<Rightarrow> event list \<Rightarrow> (string \<rightharpoonup> string)" where
  "replay fs [] = fs"
| "replay fs (WriteFile p c # es) = replay (fs(p \<mapsto> c)) es"
| "replay fs (e # es) = replay fs es"

text \<open>
  Every write of a trace goes to \<open>output\<close> and carries the serialization of all the records
  appended before it, \<open>acc\<close> being the records appended before the trace starts.
\<close>

fun snapshots :: "string \<Rightarrow> match_record list \<Rightarrow> event list \<Rightarrow> bool" where
  "snapshots output acc [] = True"
| "snapshots output acc (Append r # es) = snapshots output (acc @ [r]) es"
| "snapshots output acc (WriteFile p c # es) =
     (p = output \<and> acc \<noteq> [] \<and> c = to_csv acc \<and> snapshots output acc es)"
| "snapshots output acc (Log l m # es) = snapshots output acc es"

text \<open>
  A record that the orchestrator builds from a verdict the model service returned with
  a score above 5.
\<close>

definition accepted_by :: "'w env \<Rightarrow> match_record \<Rightarrow> bool" where
  "accepted_by env r \<longleftrightarrow>
     (\<exists>cfp evaluation prompt w w'.
        r = match_record cfp evaluation \<and> 5 < score evaluation \<and>
        llm_invoke env prompt w = (Inr evaluation, w'))"

text \<open>
  What a part of a run may do between two states: it extends the trace, the appended
  records go to \<open>evaluated_results\<close>, the files change by the writes only, every write is
  a snapshot, and every appended record was accepted.
\<close>

definition extends :: "'w env \<Rightarrow> string \<Rightarrow> 'w state \<Rightarrow> 'w state \<Rightarrow> bool" where
  "extends env output st st' \<longleftrightarrow>
     (\<exists>es. trace st' = trace st @ es \<and>
           evaluated_results st' = evaluated_results st @ appended es \<and>
           files st' = replay (files st) es \<and>
           snapshots output (evaluated_results st) es \<and>
           (\<forall>r \<in> set (appended es). accepted_by env r))"

text \<open>A part of a run that only logs: no record is appended and no file is written.\<close>

definition only_logs :: "'w state \<Rightarrow> 'w state \<Rightarrow> bool" where
  "only_logs st st' \<longleftrightarrow>
     evaluated_results st' = evaluated_results st \<and> files st' = files st \<and>
     (\<exists>es. trace st' = trace st @ es \<and> list_all is_log es)"


section \<open>A small site\<close>

text \<open>
  A listing page with three distinct detail links (one of them twice) and one other
  link, a detail page with a title only, and a world that counts the calls of the model.
  The second detail page cannot be fetched; with the model of \<open>demo_env\<close> the first
  conference scores 8 and the third 3.
\<close>

definition demo_listing :: node where
  "demo_listing =
     Element ''[document]'' []
       [Element ''table'' []
          [Element ''tr'' []
             [Element ''td'' [(''align'', ''center'')] [Text ''Total of 3 CFPs in 1 pages'']],
           Element ''tr'' []
             [Element ''td'' []
                [Element ''a'' [(''href'', ''/cfp/servlet/event.showcfp?eventid=1'')] [Text ''QC 2027'']],
              Element ''td'' []
                [Element ''a'' [(''href'', ''/cfp/servlet/event.showcfp?eventid=2'')] [Text ''BAD 2027'']],
              Element ''td'' []
                [Element ''a'' [(''href'', ''/cfp/servlet/event.showcfp?eventid=3'')] [Text ''COOK 2027'']],
              Element ''td'' []
                [Element ''a'' [(''href'', ''/cfp/servlet/event.showcfp?eventid=1'')] [Text ''more'']],
              Element ''td'' [] [Element ''a'' [(''href'', ''/cfp/home'')] [Text ''home'']]]]]"

definition demo_detail :: node where
  "demo_detail =
     Element ''[document]'' []
       [Element ''span'' [(''property'', ''v:description'')]
          [Text '' Intl. Conf. on Quantum Computing '']]"

definition demo_urls :: "string list" where
  "demo_urls =
     [''http://www.wikicfp.com/cfp/servlet/event.showcfp?eventid=1'',
      ''http://www.wikicfp.com/cfp/servlet/event.showcfp?eventid=2'',
      ''http://www.wikicfp.com/cfp/servlet/event.showcfp?eventid=3'']"

definition site_env :: "(string \<Rightarrow> nat \<Rightarrow> (py_exc + CFPMatchResult) \<times> nat) \<Rightarrow> nat env" where
  "site_env model =
     \<lparr>read_text = (\<lambda>path w. (Inr ''Quantum error correction using stabilizer codes'', w)),
      http_get = (\<lambda>url w.
        (if url = demo_urls ! 1 then Inl (Exception ''HTTPError'')
         else if url \<in> set demo_urls then Inr demo_detail
         else Inr demo_listing, w)),
      llm_invoke = model,
      set_iter = (\<lambda>S. filter (\<lambda>u. u \<in> S) demo_urls)\<rparr>"

definition demo_env :: "nat env" where
  "demo_env =
     site_env (\<lambda>prompt w.
       (Inr \<lparr>score = (if w = 0 then 8 else 3), justification = ''Strong topical overlap''\<rparr>,
        Suc w))"

text \<open>The same site with a model that answers 5 to every prompt, and one that answers 11.\<close>

definition rejecting_env :: "nat env" where
  "rejecting_env =
     site_env (\<lambda>prompt w. (Inr \<lparr>score = 5, justification = ''Borderline''\<rparr>, Suc w))"

definition overscoring_env :: "nat env" where
  "overscoring_env =
     site_env (\<lambda>prompt w. (Inr \<lparr>score = 11, justification = ''Perfect fit''\<rparr>, Suc w))"

text \<open>The effects of the run of \<open>demo_env\<close> up to its first write, and what it writes.\<close>

definition demo_trace :: "event list" where
  "demo_trace =
     [Log INFO (TotalPagesLookup ''quantum''),
      Log INFO (TotalPagesFound 1),
      Log INFO (SearchingPage 1 ''quantum''),
      Log INFO (FoundOnPage 3 1),
      Log INFO (OpeningCFP ''http://www.wikicfp.com/cfp/servlet/event.showcfp?eventid=1''),
      Log DEBUG (ExtractedCFP ''Intl. Conf. on Quantum Computing'' ''N/A'' ''N/A'' ''N/A'' ''N/A''),
      Log INFO (EvaluatingCFP ''Intl. Conf. on Quantum Computing''),
      Append
        [(''Title'', VStr ''Intl. Conf. on Quantum Computing''),
         (''Acronym'', VStr ''N/A''), (''When'', VStr ''N/A''),
         (''Where'', VStr ''N/A''), (''Deadline'', VStr ''N/A''),
         (''Score'', VInt 8),
         (''Justification'', VStr ''Strong topical overlap'')],
      Log INFO (RelevantCFP ''Intl. Conf. on Quantum Computing'' 8),
      Log INFO (OpeningCFP ''http://www.wikicfp.com/cfp/servlet/event.showcfp?eventid=2''),
      Log ERROR
        (ProcessingError ''http://www.wikicfp.com/cfp/servlet/event.showcfp?eventid=2''
           (Exception ''HTTPError'')),
      Log INFO (OpeningCFP ''http://www.wikicfp.com/cfp/servlet/event.showcfp?eventid=3''),
      Log DEBUG (ExtractedCFP ''Intl. Conf. on Quantum Computing'' ''N/A'' ''N/A'' ''N/A'' ''N/A''),
      Log INFO (EvaluatingCFP ''Intl. Conf. on Quantum Computing''),
      Log INFO (NotRelevantCFP ''Intl. Conf. on Quantum Computing'' 3)]"

definition demo_csv :: string where
  "demo_csv =
     ''Title,Acronym,When,Where,Deadline,Score,Justification'' @ [CHR 0x0A] @
     ''Intl. Conf. on Quantum Computing,N/A,N/A,N/A,N/A,8,Strong topical overlap'' @ [CHR 0x0A]"

section \<open>Describing the extractor's result\<close>

text \<open>
  The labelled rows of a detail page, in the order the extractor visits them: the rows of
  the tables of class \<open>gglu\<close> that have a header cell and a data cell, each as the text of
  its first header cell and the text of its first data cell.
\<close>

definition row_label :: "node \<Rightarrow> (string \<times> string) list" where
  "row_label row =
     (case find ''th'' any_tag row of
        None \<Rightarrow> []
      | Some header \<Rightarrow>
          (case find ''td'' any_tag row of
             None \<Rightarrow> []
           | Some cell \<Rightarrow> [(get_text_strip header, get_text_strip cell)]))"

definition labelled_rows :: "node \<Rightarrow> (string \<times> string) list" where
  "labelled_rows soup =
     concat (map (\<lambda>table. concat (map row_label (find_all ''tr'' any_tag table)))
               (find_all ''table'' (class_is ''gglu'') soup))"

text \<open>
  The field a header text stands for: the keywords are looked for in the lower-cased text,
  in the order \<open>when\<close>, \<open>where\<close>, \<open>submission deadline\<close>, and the first that occurs decides.
\<close>

datatype field = FWhen | FWhere | FDeadline

definition field_of_header :: "string \<Rightarrow> field option" where
  "field_of_header h =
     (if contains ''when'' (lower h) then Some FWhen
      else if contains ''where'' (lower h) then Some FWhere
      else if contains ''submission deadline'' (lower h) then Some FDeadline
      else None)"

text \<open>The cell text of the last row that stands for a field, \<open>N/A\<close> when there is none.\<close>

definition last_value :: "field \<Rightarrow> (string \<times> string) list \<Rightarrow> string" where
  "last_value f rows =
     (case filter (\<lambda>hc. field_of_header (fst hc) = Some f) rows of
        [] \<Rightarrow> ''N/A''
      | hc # hcs \<Rightarrow> snd (last (hc # hcs)))"

text \<open>
  A detail page on which every element the extractor looks for is present and blank, and
  a world that serves it for every URL.
\<close>

definition blank_detail :: node where
  "blank_detail =
     Element ''[document]'' []
       [Element ''span'' [(''property'', ''v:description'')] [],
        Element ''span'' [(''property'', ''v:summary''), (''content'', '' '')] [],
        Element ''table'' [(''class'', ''gglu'')]
          [Element ''tr'' [] [Element ''th'' [] [Text ''When''], Element ''td'' [] []],
           Element ''tr'' [] [Element ''th'' [] [Text ''Where''], Element ''td'' [] [Text '' '']],
           Element ''tr'' [] [Element ''th'' [] [Text ''Submission Deadline''], Element ''td'' [] []]],
        Element ''div'' [(''class'', ''cfp'')] [Text '' '']]"

definition blank_env :: "nat env" where
  "blank_env =
     \<lparr>read_text = (\<lambda>path w. (Inr ''Quantum error correction'', w)),
      http_get = (\<lambda>url w. (Inr blank_detail, w)),
      llm_invoke = (\<lambda>prompt w. (Inr \<lparr>score = 0, justification = ''No information''\<rparr>, w)),
      set_iter = (\<lambda>S. [])\<rparr>"

text \<open>A detail page whose table has two rows for the dates and headers in mixed case.\<close>

definition two_dates_detail :: node where
  "two_dates_detail =
     Element ''[document]'' []
       [Element ''table'' [(''class'', ''gglu'')]
          [Element ''tr'' [] [Element ''th'' [] [Text ''When''], Element ''td'' [] [Text ''Jun 1, 2027'']],
           Element ''tr'' [] [Element ''th'' [] [Text ''WHERE''], Element ''td'' [] [Text ''Paris'']],
           Element ''tr'' [] [Element ''th'' [] [Text ''when (new)''], Element ''td'' [] [Text ''Jul 1, 2027'']],
           Element ''tr'' [] [Element ''th'' [] [Text ''Submission Deadline''],
                              Element ''td'' [] [Text ''Jan 15, 2027'']]]]"

section \<open>Describing the phrase of the page-count resolver\<close>

text \<open>A non-empty run of whitespace, and a non-empty run of decimal digits.\<close>

definition blanks :: "string \<Rightarrow> bool" where
  "blanks ws \<longleftrightarrow> ws \<noteq> [] \<and> list_all is_space ws"

definition digits :: "string \<Rightarrow> bool" where
  "digits ds \<longleftrightarrow> ds \<noteq> [] \<and> list_all is_digit ds"

text \<open>
  A string that starts with a phrase of the shape \<open>Total of N CFPs in P pages\<close>, for the
  digits \<open>pages\<close> of \<open>P\<close>; a string that has such a phrase after \<open>pre\<close>; and a string whose
  leftmost such phrase is for \<open>pages\<close>.
\<close>

definition phrase_at_head :: "string \<Rightarrow> string \<Rightarrow> bool" where
  "phrase_at_head s pages \<longleftrightarrow>
     (\<exists>ws1 n ws2 ws3 ws4 rest.
        s = ''Total of'' @ ws1 @ n @ ws2 @ ''CFPs in'' @ ws3 @ pages @ ws4 @ ''pages'' @ rest \<and>
        blanks ws1 \<and> digits n \<and> blanks ws2 \<and> blanks ws3 \<and> digits pages \<and> blanks ws4)"

definition has_phrase :: "string \<Rightarrow> string \<Rightarrow> bool" where
  "has_phrase text pages \<longleftrightarrow> (\<exists>pre s. text = pre @ s \<and> phrase_at_head s pages)"

definition first_phrase :: "string \<Rightarrow> string \<Rightarrow> bool" where
  "first_phrase text pages \<longleftrightarrow>
     (\<exists>pre s. text = pre @ s \<and> phrase_at_head s pages \<and>
        (\<forall>pre' s' p. text = pre' @ s' \<and> length pre' < length pre \<longrightarrow> \<not> phrase_at_head s' p))"

text \<open>A listing page whose count of pages is spread over two cells, the second one centred.\<close>

definition two_pages_listing :: node where
  "two_pages_listing =
     Element ''[document]'' []
       [Element ''table'' []
          [Element ''tr'' []
             [Element ''td'' [(''align'', ''center'')] [Text ''Total of CFPs''],
              Element ''td'' [(''align'', ''left'')] [Text ''Total of 7 CFPs in 9 pages''],
              Element ''td'' [(''align'', ''center'')]
                [Text '' Total of 23 CFPs in 2 pages '']]]]"

definition two_pages_env :: "nat env" where
  "two_pages_env =
     \<lparr>read_text = (\<lambda>path w. (Inr ''Quantum error correction using stabilizer codes'', w)),
      http_get = (\<lambda>url w. (Inr two_pages_listing, w)),
      llm_invoke = (\<lambda>prompt w. (Inr \<lparr>score = 0, justification = ''No information''\<rparr>, w)),
      set_iter = (\<lambda>S. [])\<rparr>"

text \<open>
  A listing page whose two detail links are not root-relative: the target of the first is
  already an absolute URL, the target of the second has no leading slash.
\<close>

definition unrooted_listing :: node where
  "unrooted_listing =
     Element ''[document]'' []
       [Element ''a'' [(''href'', ''http://www.wikicfp.com/cfp/servlet/event.showcfp?eventid=1'')]
          [Text ''QC 2027''],
        Element ''a'' [(''href'', ''event.showcfp?eventid=2'')] [Text ''BAD 2027'']]"

definition unrooted_env :: "nat env" where
  "unrooted_env =
     \<lparr>read_text = (\<lambda>path w. (Inr ''Quantum error correction using stabilizer codes'', w)),
      http_get = (\<lambda>url w. (Inr unrooted_listing, w)),
      llm_invoke = (\<lambda>prompt w. (Inr \<lparr>score = 0, justification = ''No information''\<rparr>, w)),
      set_iter = (\<lambda>S. [])\<rparr>"

section \<open>Effects of the parts of a run\<close>

lemma log_fields:
  "evaluated_results (log l m st) = evaluated_results st"
  "files (log l m st) = files st"
  "world (log l m st) = world st"
  "trace (log l m st) = trace st @ [Log l m]"
  by (simp_all add: log_def)

lemma append_result_fields:
  "evaluated_results (append_result r st) = evaluated_results st @ [r]"
  "files (append_result r st) = files st"
  "world (append_result r st) = world st"
  "trace (append_result r st) = trace st @ [Append r]"
  by (simp_all add: append_result_def)

lemma write_file_fields:
  "evaluated_results (write_file p c st) = evaluated_results st"
  "files (write_file p c st) = (files st)(p \<mapsto> c)"
  "world (write_file p c st) = world st"
  "trace (write_file p c st) = trace st @ [WriteFile p c]"
  by (simp_all add: write_file_def)

lemma appended_append: "appended (es1 @ es2) = appended es1 @ appended es2"
  by (induction es1 rule: appended.induct) simp_all

lemma replay_append: "replay fs (es1 @ es2) = replay (replay fs es1) es2"
proof (induction es1 arbitrary: fs)
  case Nil
  show ?case by simp
next
  case (Cons e es1)
  show ?case
  proof (cases e)
    case (WriteFile p c)
    then show ?thesis
      using Cons.IH [of "fs(p \<mapsto> c)"] by (simp only: append_Cons replay.simps)
  qed (simp_all add: Cons.IH)
qed

lemma snapshots_append:
  "snapshots out acc (es1 @ es2) \<longleftrightarrow>
     snapshots out acc es1 \<and> snapshots out (acc @ appended es1) es2"
  by (induction out acc es1 rule: snapshots.induct) simp_all

lemma extends_refl: "extends env out st st"
  by (simp add: extends_def)

lemma extends_trans:
  assumes "extends env out st1 st2" and "extends env out st2 st3"
  shows "extends env out st1 st3"
proof -
  from assms(1) obtain es1 where 1:
    "trace st2 = trace st1 @ es1"
    "evaluated_results st2 = evaluated_results st1 @ appended es1"
    "files st2 = replay (files st1) es1"
    "snapshots out (evaluated_results st1) es1"
    "\<forall>r \<in> set (appended es1). accepted_by env r"
    unfolding extends_def by blast
  from assms(2) obtain es2 where 2:
    "trace st3 = trace st2 @ es2"
    "evaluated_results st3 = evaluated_results st2 @ appended es2"
    "files st3 = replay (files st2) es2"
    "snapshots out (evaluated_results st2) es2"
    "\<forall>r \<in> set (appended es2). accepted_by env r"
    unfolding extends_def by blast
  have "trace st3 = trace st1 @ (es1 @ es2)"
    using 1(1) 2(1) by simp
  moreover have "evaluated_results st3 = evaluated_results st1 @ appended (es1 @ es2)"
    using 1(2) 2(2) by (simp add: appended_append)
  moreover have "files st3 = replay (files st1) (es1 @ es2)"
    using 1(3) 2(3) by (simp add: replay_append)
  moreover have "snapshots out (evaluated_results st1) (es1 @ es2)"
    using 1(2,4) 2(4) by (simp add: snapshots_append)
  moreover have "\<forall>r \<in> set (appended (es1 @ es2)). accepted_by env r"
    using 1(5) 2(5) by (auto simp: appended_append)
  ultimately show ?thesis
    unfolding extends_def by blast
qed

lemma extends_log: "extends env out st (log l m st)"
  unfolding extends_def by (rule exI [of _ "[Log l m]"]) (simp add: log_fields)

lemma extends_world: "extends env out st (st\<lparr>world := w\<rparr>)"
  unfolding extends_def by (rule exI [of _ "[]"]) simp

lemma extends_append_result:
  "accepted_by env r \<Longrightarrow> extends env out st (append_result r st)"
  unfolding extends_def by (rule exI [of _ "[Append r]"]) (simp add: append_result_fields)

lemma extends_write_file:
  "evaluated_results st \<noteq> [] \<Longrightarrow>
   extends env out st (write_file out (to_csv (evaluated_results st)) st)"
  unfolding extends_def
  by (rule exI [of _ "[WriteFile out (to_csv (evaluated_results st))]"])
     (simp add: write_file_fields)

lemma extends_fetch_soup:
  "fetch_soup env url st = (r, st') \<Longrightarrow> extends env out st st'"
  by (auto simp: fetch_soup_def extends_world split: prod.splits)

lemma extends_chain_evaluate:
  "chain_evaluate env inputs st = (r, st') \<Longrightarrow> extends env out st st'"
  by (auto simp: chain_evaluate_def extends_world extends_refl split: prod.splits sum.splits)

lemma chain_evaluate_verdict:
  assumes "chain_evaluate env inputs st = (Inr evaluation, st')"
  shows "\<exists>prompt w w'. llm_invoke env prompt w = (Inr evaluation, w')"
  using assms by (auto simp: chain_evaluate_def split: prod.splits sum.splits)

lemma extends_parse_cfp_detail_page:
  assumes "parse_cfp_detail_page env url st = (r, st')"
  shows "extends env out st st'"
proof -
  let ?st1 = "log INFO (OpeningCFP url) st"
  obtain r2 st2 where f: "fetch_soup env url ?st1 = (r2, st2)"
    by (cases "fetch_soup env url ?st1")
  have e2: "extends env out st st2"
    using extends_trans [OF extends_log extends_fetch_soup [OF f]] .
  show ?thesis
  proof (cases r2)
    case (Inl e)
    with assms f have "st' = st2"
      by (simp add: parse_cfp_detail_page_def Let_def)
    with e2 show ?thesis by simp
  next
    case (Inr soup)
    with assms f obtain m where "st' = log DEBUG m st2"
      by (auto simp: parse_cfp_detail_page_def Let_def)
    with e2 show ?thesis
      using extends_trans extends_log by blast
  qed
qed

lemma extends_get_total_pages:
  assumes "get_total_pages env keyword st = (r, st')"
  shows "extends env out st st'"
proof -
  let ?url = "''http://www.wikicfp.com/cfp/call?conference='' @ keyword"
  let ?st1 = "log INFO (TotalPagesLookup keyword) st"
  obtain r2 st2 where f: "fetch_soup env ?url ?st1 = (r2, st2)"
    by (cases "fetch_soup env ?url ?st1")
  have e2: "extends env out st st2"
    using extends_trans [OF extends_log extends_fetch_soup [OF f]] .
  show ?thesis
  proof (cases r2)
    case (Inl e)
    with assms f have "st' = st2"
      by (simp add: get_total_pages_def Let_def)
    with e2 show ?thesis by simp
  next
    case (Inr soup)
    with assms f obtain l m where "st' = log l m st2"
      by (auto simp: get_total_pages_def Let_def split: option.splits)
    with e2 show ?thesis
      using extends_trans extends_log by blast
  qed
qed

lemma extends_search_wikicfp_page:
  assumes "search_wikicfp_page env keyword page st = (r, st')"
  shows "extends env out st st'"
proof -
  let ?url = "''http://www.wikicfp.com/cfp/call?conference='' @ keyword @ ''&page='' @ str_of_nat page"
  let ?st1 = "log INFO (SearchingPage page keyword) st"
  obtain r2 st2 where f: "fetch_soup env ?url ?st1 = (r2, st2)"
    by (cases "fetch_soup env ?url ?st1")
  have e2: "extends env out st st2"
    using extends_trans [OF extends_log extends_fetch_soup [OF f]] .
  show ?thesis
  proof (cases r2)
    case (Inl e)
    with assms f have "st' = st2"
      by (simp add: search_wikicfp_page_def Let_def)
    with e2 show ?thesis by simp
  next
    case (Inr soup)
    with assms f obtain m where "st' = log INFO m st2"
      by (auto simp: search_wikicfp_page_def Let_def)
    with e2 show ?thesis
      using extends_trans extends_log by blast
  qed
qed

lemma try_body_cases:
  obtains (parse_failed) e st1 where
      "parse_cfp_detail_page env url st = (Inl e, st1)"
      "try_body env a url st = (Some e, st1)"
  | (score_failed) cfp st1 e st2 where
      "parse_cfp_detail_page env url st = (Inr cfp, st1)"
      "chain_evaluate env (evaluate_inputs a cfp) (log INFO (EvaluatingCFP (cfp_title cfp)) st1)
         = (Inl e, st2)"
      "try_body env a url st = (Some e, st2)"
  | (accepted) cfp st1 evaluation st2 where
      "parse_cfp_detail_page env url st = (Inr cfp, st1)"
      "chain_evaluate env (evaluate_inputs a cfp) (log INFO (EvaluatingCFP (cfp_title cfp)) st1)
         = (Inr evaluation, st2)"
      "5 < score evaluation"
      "try_body env a url st =
         (None, log INFO (RelevantCFP (cfp_title cfp) (score evaluation))
                  (append_result (match_record cfp evaluation) st2))"
  | (rejected) cfp st1 evaluation st2 where
      "parse_cfp_detail_page env url st = (Inr cfp, st1)"
      "chain_evaluate env (evaluate_inputs a cfp) (log INFO (EvaluatingCFP (cfp_title cfp)) st1)
         = (Inr evaluation, st2)"
      "score evaluation \<le> 5"
      "try_body env a url st =
         (None, log INFO (NotRelevantCFP (cfp_title cfp) (score evaluation)) st2)"
proof -
  obtain r1 st1 where p: "parse_cfp_detail_page env url st = (r1, st1)"
    by (cases "parse_cfp_detail_page env url st")
  show thesis
  proof (cases r1)
    case (Inl e)
    with p show thesis
      by (intro parse_failed [of e st1]) (simp_all add: try_body_def)
  next
    case (Inr cfp)
    obtain r2 st2 where c:
      "chain_evaluate env (evaluate_inputs a cfp) (log INFO (EvaluatingCFP (cfp_title cfp)) st1)
         = (r2, st2)"
      by (cases "chain_evaluate env (evaluate_inputs a cfp)
                   (log INFO (EvaluatingCFP (cfp_title cfp)) st1)")
    show thesis
    proof (cases r2)
      case (Inl e)
      with p c Inr show thesis
        by (intro score_failed [of cfp st1 e st2]) (simp_all add: try_body_def Let_def)
    next
      case r2: (Inr evaluation)
      show thesis
      proof (cases "5 < score evaluation")
        case True
        with p c Inr r2 show thesis
          by (intro accepted [of cfp st1 evaluation st2]) (simp_all add: try_body_def Let_def)
      next
        case False
        with p c Inr r2 show thesis
          by (intro rejected [of cfp st1 evaluation st2]) (simp_all add: try_body_def Let_def)
      qed
    qed
  qed
qed

lemma extends_try_body:
  assumes "try_body env a url st = (r, st')"
  shows "extends env out st st'"
proof (cases rule: try_body_cases [of env url st a])
  case (parse_failed e st1)
  from assms parse_failed(2) have "st' = st1" by simp
  then show ?thesis
    using extends_parse_cfp_detail_page [OF parse_failed(1)] by simp
next
  case (score_failed cfp st1 e st2)
  have 1: "extends env out st st1"
    using score_failed(1) by (rule extends_parse_cfp_detail_page)
  have 2: "extends env out st1 st2"
    using extends_trans [OF extends_log extends_chain_evaluate [OF score_failed(2)]] .
  from assms score_failed(3) have "st' = st2" by simp
  then show ?thesis
    using extends_trans [OF 1 2] by simp
next
  case (accepted cfp st1 evaluation st2)
  have 1: "extends env out st st1"
    using accepted(1) by (rule extends_parse_cfp_detail_page)
  have 2: "extends env out st1 st2"
    using extends_trans [OF extends_log extends_chain_evaluate [OF accepted(2)]] .
  have "accepted_by env (match_record cfp evaluation)"
    using chain_evaluate_verdict [OF accepted(2)] accepted(3)
    unfolding accepted_by_def by blast
  then have 3: "extends env out st2
      (log INFO (RelevantCFP (cfp_title cfp) (score evaluation))
         (append_result (match_record cfp evaluation) st2))"
    using extends_trans [OF extends_append_result extends_log] by blast
  from assms accepted(4) have "st' = log INFO (RelevantCFP (cfp_title cfp) (score evaluation))
         (append_result (match_record cfp evaluation) st2)" by simp
  then show ?thesis
    using extends_trans [OF extends_trans [OF 1 2] 3] by simp
next
  case (rejected cfp st1 evaluation st2)
  have 1: "extends env out st st1"
    using rejected(1) by (rule extends_parse_cfp_detail_page)
  have 2: "extends env out st1 st2"
    using extends_trans [OF extends_log extends_chain_evaluate [OF rejected(2)]] .
  from assms rejected(4)
  have "st' = log INFO (NotRelevantCFP (cfp_title cfp) (score evaluation)) st2" by simp
  then show ?thesis
    using extends_trans [OF extends_trans [OF 1 2] extends_log] by simp
qed

lemma extends_process_url:
  assumes "process_url env a url st = (r, st')"
  shows "extends env out st st'"
proof -
  obtain r1 st1 where t: "try_body env a url st = (r1, st1)"
    by (cases "try_body env a url st")
  have e: "extends env out st st1"
    using t by (rule extends_try_body)
  from assms t have "st' = st1 \<or> (\<exists>l m. st' = log l m st1)"
    by (auto simp: process_url_def split: option.splits if_splits)
  with e show ?thesis
    using extends_trans extends_log by blast
qed

lemma extends_for_urls:
  "for_urls env a urls st = (r, st') \<Longrightarrow> extends env out st st'"
proof (induction urls arbitrary: st)
  case Nil
  then show ?case by (simp add: extends_refl)
next
  case (Cons url urls)
  obtain r1 st1 where p: "process_url env a url st = (r1, st1)"
    by (cases "process_url env a url st")
  have e: "extends env out st st1"
    using p by (rule extends_process_url)
  show ?case
  proof (cases r1)
    case None
    with Cons.prems p have "for_urls env a urls st1 = (r, st')" by simp
    then have "extends env out st1 st'" by (rule Cons.IH)
    with e show ?thesis by (rule extends_trans)
  next
    case (Some x)
    with Cons.prems p have "st' = st1" by simp
    with e show ?thesis by simp
  qed
qed

lemma extends_save_page: "extends env out st (save_page out st)"
  unfolding save_page_def
  using extends_trans [OF extends_write_file extends_log] extends_refl by auto

lemma extends_save_final: "extends env out st (save_final out st)"
  unfolding save_final_def
  using extends_trans [OF extends_write_file extends_log] extends_log by auto

lemma extends_process_page:
  assumes "process_page env a keyword out page st = (r, st')"
  shows "extends env out st st'"
proof -
  obtain r1 st1 where s: "search_wikicfp_page env keyword page st = (r1, st1)"
    by (cases "search_wikicfp_page env keyword page st")
  have e1: "extends env out st st1"
    using s by (rule extends_search_wikicfp_page)
  show ?thesis
  proof (cases r1)
    case (Inl e)
    with assms s have "st' = st1" by (simp add: process_page_def)
    with e1 show ?thesis by simp
  next
    case (Inr urls)
    obtain r2 st2 where f: "for_urls env a (set_iter env urls) st1 = (r2, st2)"
      by (cases "for_urls env a (set_iter env urls) st1")
    have e2: "extends env out st st2"
      using e1 extends_for_urls [OF f] by (rule extends_trans)
    from assms s Inr f have "st' = st2 \<or> st' = save_page out st2"
      by (auto simp: process_page_def split: option.splits)
    with e2 show ?thesis
      using extends_trans extends_save_page by blast
  qed
qed

lemma extends_for_pages:
  "for_pages env a keyword out pages st = (r, st') \<Longrightarrow> extends env out st st'"
proof (induction pages arbitrary: st)
  case Nil
  then show ?case by (simp add: extends_refl)
next
  case (Cons page pages)
  obtain r1 st1 where p: "process_page env a keyword out page st = (r1, st1)"
    by (cases "process_page env a keyword out page st")
  have e: "extends env out st st1"
    using p by (rule extends_process_page)
  show ?case
  proof (cases r1)
    case None
    with Cons.prems p have "for_pages env a keyword out pages st1 = (r, st')" by simp
    then have "extends env out st1 st'" by (rule Cons.IH)
    with e show ?thesis by (rule extends_trans)
  next
    case (Some x)
    with Cons.prems p have "st' = st1" by simp
    with e show ?thesis by simp
  qed
qed

lemma extends_read_abstract:
  "read_abstract env path st = (r, st') \<Longrightarrow> extends env out st st'"
  by (auto simp: read_abstract_def extends_world split: prod.splits sum.splits)

lemma extends_main:
  assumes "main env abstract_file keyword out fs w = (r, st)"
  shows "extends env out (init_state fs w) st"
proof -
  obtain r1 st1 where a: "read_abstract env abstract_file (init_state fs w) = (r1, st1)"
    by (cases "read_abstract env abstract_file (init_state fs w)")
  have e1: "extends env out (init_state fs w) st1"
    using a by (rule extends_read_abstract)
  show ?thesis
  proof (cases r1)
    case (Inl e)
    with assms a have "st = st1 \<or> (\<exists>l m. st = log l m st1)"
      by (auto simp: main_def split: if_splits)
    with e1 show ?thesis
      using extends_trans extends_log by blast
  next
    case (Inr abstract_text)
    obtain r2 st2 where g: "get_total_pages env keyword st1 = (r2, st2)"
      by (cases "get_total_pages env keyword st1")
    have e2: "extends env out (init_state fs w) st2"
      using e1 extends_get_total_pages [OF g] by (rule extends_trans)
    show ?thesis
    proof (cases r2)
      case (Inl e)
      with assms a Inr g have "st = st2" by (simp add: main_def)
      with e2 show ?thesis by simp
    next
      case r2: (Inr total_pages)
      obtain r3 st3 where f:
        "for_pages env abstract_text keyword out [1..<total_pages + 1] st2 = (r3, st3)"
        by (cases "for_pages env abstract_text keyword out [1..<total_pages + 1] st2")
      have e3: "extends env out (init_state fs w) st3"
        using e2 extends_for_pages [OF f] by (rule extends_trans)
      from assms a Inr g r2 f have "st = st3 \<or> st = save_final out st3"
        by (auto simp: main_def split: option.splits)
      with e3 show ?thesis
        using extends_trans extends_save_final by blast
    qed
  qed
qed

section \<open>Parts of a run that only log\<close>

lemma only_logs_refl: "only_logs st st"
  by (simp add: only_logs_def)

lemma only_logs_trans: "only_logs st1 st2 \<Longrightarrow> only_logs st2 st3 \<Longrightarrow> only_logs st1 st3"
  unfolding only_logs_def by (metis append.assoc list_all_append)

lemma only_logs_log: "only_logs st (log l m st)"
  unfolding only_logs_def by (simp add: log_fields)

lemma only_logs_world: "only_logs st (st\<lparr>world := w\<rparr>)"
  by (simp add: only_logs_def)

lemma only_logs_fetch_soup: "fetch_soup env url st = (r, st') \<Longrightarrow> only_logs st st'"
  by (auto simp: fetch_soup_def only_logs_world split: prod.splits)

lemma only_logs_chain_evaluate: "chain_evaluate env inputs st = (r, st') \<Longrightarrow> only_logs st st'"
  by (auto simp: chain_evaluate_def only_logs_world only_logs_refl split: prod.splits sum.splits)

lemma only_logs_parse_cfp_detail_page:
  assumes "parse_cfp_detail_page env url st = (r, st')"
  shows "only_logs st st'"
proof -
  let ?st1 = "log INFO (OpeningCFP url) st"
  obtain r2 st2 where f: "fetch_soup env url ?st1 = (r2, st2)"
    by (cases "fetch_soup env url ?st1")
  have e2: "only_logs st st2"
    using only_logs_trans [OF only_logs_log only_logs_fetch_soup [OF f]] .
  from assms f have "st' = st2 \<or> (\<exists>m. st' = log DEBUG m st2)"
    by (cases r2) (auto simp: parse_cfp_detail_page_def Let_def)
  with e2 show ?thesis
    using only_logs_trans only_logs_log by blast
qed

section \<open>Serialization and snapshots\<close>

lemma first_seen_covered: "set ks \<subseteq> set seen \<Longrightarrow> first_seen seen ks = []"
  by (induction ks) auto

lemma first_seen_distinct:
  "distinct xs \<Longrightarrow> set xs \<inter> set seen = {} \<Longrightarrow> set ys \<subseteq> set xs \<union> set seen \<Longrightarrow>
   first_seen seen (xs @ ys) = xs"
proof (induction xs arbitrary: seen)
  case Nil
  then show ?case by (simp add: first_seen_covered)
next
  case (Cons x xs)
  have "first_seen (x # seen) (xs @ ys) = xs"
    using Cons.prems by (intro Cons.IH) auto
  with Cons.prems show ?case by simp
qed

lemma df_columns_uniform:
  assumes "recs \<noteq> []" and "\<forall>r \<in> set recs. map fst r = cols" and "distinct cols"
  shows "df_columns recs = cols"
proof -
  obtain r rs where recs: "recs = r # rs"
    using assms(1) by (cases recs) auto
  have "set (concat (map (map fst) rs)) \<subseteq> set cols"
    using assms(2) recs by auto
  then have "first_seen [] (cols @ concat (map (map fst) rs)) = cols"
    using assms(3) by (intro first_seen_distinct) auto
  then show ?thesis
    using assms(2) recs by (simp add: df_columns_def)
qed

lemma accepted_by_keys:
  "accepted_by env r \<Longrightarrow>
   map fst r = [''Title'', ''Acronym'', ''When'', ''Where'', ''Deadline'', ''Score'', ''Justification'']"
  by (auto simp: accepted_by_def match_record_def)

lemma csv_line_columns:
  "csv_line [''Title'', ''Acronym'', ''When'', ''Where'', ''Deadline'', ''Score'', ''Justification''] =
     ''Title,Acronym,When,Where,Deadline,Score,Justification'' @ [CHR 0x0A]"
  by (simp add: csv_line_def csv_field_def csv_special_def)

lemma to_csv_accepted:
  assumes "recs \<noteq> []" and "\<forall>r \<in> set recs. accepted_by env r"
  shows "to_csv recs =
     ''Title,Acronym,When,Where,Deadline,Score,Justification'' @ [CHR 0x0A] @
     concat (map (csv_row [''Title'', ''Acronym'', ''When'', ''Where'', ''Deadline'', ''Score'',
                           ''Justification'']) recs)"
proof -
  have "df_columns recs =
      [''Title'', ''Acronym'', ''When'', ''Where'', ''Deadline'', ''Score'', ''Justification'']"
    using assms accepted_by_keys [of env] by (intro df_columns_uniform) auto
  then show ?thesis
    using csv_line_columns by (simp add: to_csv_def)
qed

lemma snapshots_at_write:
  assumes "snapshots out acc (pre @ WriteFile p c # post)"
  shows "p = out \<and> acc @ appended pre \<noteq> [] \<and> c = to_csv (acc @ appended pre)"
  using assms by (simp add: snapshots_append)

lemma replay_no_write: "\<not> list_ex is_write es \<Longrightarrow> replay fs es = fs"
proof (induction es)
  case Nil
  show ?case by simp
next
  case (Cons e es)
  then show ?case by (cases e) simp_all
qed

lemma snapshots_no_append:
  "snapshots out acc es \<Longrightarrow> acc @ appended es = [] \<Longrightarrow> \<not> list_ex is_write es"
proof (induction es arbitrary: acc)
  case Nil
  show ?case by simp
next
  case (Cons e es)
  then show ?case by (cases e) auto
qed

lemma main_trace_facts:
  assumes "main env abstract_file keyword out fs w = (r, st)"
  shows "evaluated_results st = appended (trace st)"
    and "files st = replay fs (trace st)"
    and "snapshots out [] (trace st)"
    and "\<forall>rec \<in> set (appended (trace st)). accepted_by env rec"
  using extends_main [OF assms] by (auto simp: extends_def init_state_def)

section \<open>Evaluation of the small site\<close>

lemmas markup_defs =
  find_all_def find_def attr_is_def class_is_def any_tag_def get_text_strip_def get_text_sep_def
  strip_def is_space_def is_digit_def lower_def lower_char_def
  extract_cfp_def extract_title_def extract_acronym_def extract_description_def
  scan_tables_def scan_table_def scan_row_def
  match_here_def rx_lit_def int_of_digits_def digit_val_def
  detail_urls_def detail_links_def link_href_def href_matches_def base_url_def

lemmas csv_defs =
  to_csv_def df_columns_def csv_row_def csv_line_def csv_field_def csv_special_def
  match_record_def str_of_int_def str_of_nat.simps digit_char_def

lemma format_prompt_evaluate_inputs:
  "format_prompt prompt_template (evaluate_inputs a c) =
     Inr (concat [s. Lit s \<leftarrow> [prompt_template ! 0]] @ a @
          concat [s. Lit s \<leftarrow> [prompt_template ! 2]] @ cfp_title c @
          concat [s. Lit s \<leftarrow> [prompt_template ! 4]] @ cfp_acronym c @
          concat [s. Lit s \<leftarrow> [prompt_template ! 6]] @ cfp_when c @
          concat [s. Lit s \<leftarrow> [prompt_template ! 8]] @ cfp_where c @
          concat [s. Lit s \<leftarrow> [prompt_template ! 10]] @ cfp_deadline c @
          concat [s. Lit s \<leftarrow> [prompt_template ! 12]])"
  by (simp add: prompt_template_def evaluate_inputs_def)

lemma site_fetch:
  "fetch_soup (site_env model) url st =
     (if url = demo_urls ! 1 then Inl (Exception ''HTTPError'')
      else if url \<in> set demo_urls then Inr demo_detail
      else Inr demo_listing, st)"
  by (simp add: fetch_soup_def site_env_def)

lemma site_read_abstract:
  "read_abstract (site_env model) path st =
     (Inr ''Quantum error correction using stabilizer codes'', st)"
  by (simp add: read_abstract_def site_env_def strip_def is_space_def)

lemma site_total_pages:
  "get_total_pages (site_env model) ''quantum'' st =
     (Inr 1, log INFO (TotalPagesFound 1) (log INFO (TotalPagesLookup ''quantum'') st))"
  by (simp add: get_total_pages_def site_fetch Let_def demo_urls_def demo_listing_def markup_defs)

lemma site_search:
  "search_wikicfp_page (site_env model) ''quantum'' (Suc 0) st =
     (Inr (set demo_urls),
      log INFO (FoundOnPage 3 (Suc 0)) (log INFO (SearchingPage (Suc 0) ''quantum'') st))"
  by (simp add: search_wikicfp_page_def site_fetch Let_def demo_urls_def demo_listing_def
        markup_defs str_of_nat.simps digit_char_def insert_commute eval_nat_numeral)

lemma site_iter:
  "set_iter (site_env model)
     {''http://www.wikicfp.com/cfp/servlet/event.showcfp?eventid=1'',
      ''http://www.wikicfp.com/cfp/servlet/event.showcfp?eventid=2'',
      ''http://www.wikicfp.com/cfp/servlet/event.showcfp?eventid=3''} = demo_urls"
  by (simp add: site_env_def demo_urls_def)

lemma demo_cfp:
  "extract_cfp demo_detail =
     \<lparr>cfp_title = ''Intl. Conf. on Quantum Computing'', cfp_acronym = ''N/A'',
      cfp_when = ''N/A'', cfp_where = ''N/A'', cfp_deadline = ''N/A'',
      cfp_description = ''N/A''\<rparr>"
  by (simp add: demo_detail_def markup_defs)

lemma site_parse_first:
  "parse_cfp_detail_page (site_env model)
     ''http://www.wikicfp.com/cfp/servlet/event.showcfp?eventid=1'' st =
   (Inr (extract_cfp demo_detail),
    log DEBUG (ExtractedCFP ''Intl. Conf. on Quantum Computing'' ''N/A'' ''N/A'' ''N/A'' ''N/A'')
      (log INFO (OpeningCFP ''http://www.wikicfp.com/cfp/servlet/event.showcfp?eventid=1'') st))"
  by (simp add: parse_cfp_detail_page_def site_fetch Let_def demo_cfp demo_urls_def)

lemma site_parse_second:
  "parse_cfp_detail_page (site_env model)
     ''http://www.wikicfp.com/cfp/servlet/event.showcfp?eventid=2'' st =
   (Inl (Exception ''HTTPError''),
    log INFO (OpeningCFP ''http://www.wikicfp.com/cfp/servlet/event.showcfp?eventid=2'') st)"
  by (simp add: parse_cfp_detail_page_def site_fetch Let_def demo_urls_def)

lemma site_parse_third:
  "parse_cfp_detail_page (site_env model)
     ''http://www.wikicfp.com/cfp/servlet/event.showcfp?eventid=3'' st =
   (Inr (extract_cfp demo_detail),
    log DEBUG (ExtractedCFP ''Intl. Conf. on Quantum Computing'' ''N/A'' ''N/A'' ''N/A'' ''N/A'')
      (log INFO (OpeningCFP ''http://www.wikicfp.com/cfp/servlet/event.showcfp?eventid=3'') st))"
  by (simp add: parse_cfp_detail_page_def site_fetch Let_def demo_cfp demo_urls_def)

lemma site_chain:
  "chain_evaluate (site_env model) (evaluate_inputs a c) st =
     (case model (concat [s. Lit s \<leftarrow> [prompt_template ! 0]] @ a @
          concat [s. Lit s \<leftarrow> [prompt_template ! 2]] @ cfp_title c @
          concat [s. Lit s \<leftarrow> [prompt_template ! 4]] @ cfp_acronym c @
          concat [s. Lit s \<leftarrow> [prompt_template ! 6]] @ cfp_when c @
          concat [s. Lit s \<leftarrow> [prompt_template ! 8]] @ cfp_where c @
          concat [s. Lit s \<leftarrow> [prompt_template ! 10]] @ cfp_deadline c @
          concat [s. Lit s \<leftarrow> [prompt_template ! 12]]) (world st) of
        (r, w) \<Rightarrow> (r, st\<lparr>world := w\<rparr>))"
  by (simp add: chain_evaluate_def format_prompt_evaluate_inputs site_env_def)

lemmas site_run =
  main_def site_read_abstract site_total_pages site_search site_iter demo_urls_def
  site_parse_first site_parse_second site_parse_third
  process_page_def process_url_def try_body_def site_chain demo_cfp
  save_page_def save_final_def log_def append_result_def write_file_def init_state_def

lemma rejecting_run:
  "main rejecting_env ''abstract.txt'' ''quantum'' ''conferences.csv'' fs 0 =
     (None, snd (main rejecting_env ''abstract.txt'' ''quantum'' ''conferences.csv'' fs 0))"
  "evaluated_results
     (snd (main rejecting_env ''abstract.txt'' ''quantum'' ''conferences.csv'' fs 0)) = []"
  unfolding rejecting_env_def by (simp_all add: site_run)

lemma demo_run:
  "fst (main demo_env ''abstract.txt'' ''quantum'' ''conferences.csv'' fs 0) = None"
  "trace (snd (main demo_env ''abstract.txt'' ''quantum'' ''conferences.csv'' fs 0)) =
     demo_trace @
     WriteFile ''conferences.csv'' demo_csv #
     [Log INFO (SavedTemporarily ''conferences.csv''),
      WriteFile ''conferences.csv'' demo_csv,
      Log INFO (SavedFinal ''conferences.csv'')]"
  unfolding demo_env_def by (simp_all add: site_run csv_defs demo_trace_def demo_csv_def)

lemma overscoring_run:
  "evaluated_results
     (snd (main overscoring_env ''abstract.txt'' ''quantum'' ''conferences.csv'' fs 0)) =
     [[(''Title'', VStr ''Intl. Conf. on Quantum Computing''),
       (''Acronym'', VStr ''N/A''), (''When'', VStr ''N/A''),
       (''Where'', VStr ''N/A''), (''Deadline'', VStr ''N/A''),
       (''Score'', VInt 11),
       (''Justification'', VStr ''Perfect fit'')],
      [(''Title'', VStr ''Intl. Conf. on Quantum Computing''),
       (''Acronym'', VStr ''N/A''), (''When'', VStr ''N/A''),
       (''Where'', VStr ''N/A''), (''Deadline'', VStr ''N/A''),
       (''Score'', VInt 11),
       (''Justification'', VStr ''Perfect fit'')]]"
  "files (snd (main overscoring_env ''abstract.txt'' ''quantum'' ''conferences.csv'' fs 0))
     ''conferences.csv'' =
   Some (''Title,Acronym,When,Where,Deadline,Score,Justification'' @ [CHR 0x0A] @
     ''Intl. Conf. on Quantum Computing,N/A,N/A,N/A,N/A,11,Perfect fit'' @ [CHR 0x0A] @
     ''Intl. Conf. on Quantum Computing,N/A,N/A,N/A,N/A,11,Perfect fit'' @ [CHR 0x0A])"
  unfolding overscoring_env_def by (simp_all add: site_run csv_defs)

section \<open>Acceptance threshold\<close>

text \<open>
  Claim C1. Whenever the detail page of a URL has been extracted and scored, the loop body
  ends normally, leaves the files alone, and appends the record of this conference to
  \<open>evaluated_results\<close> if and only if the score is strictly greater than 5. With a score of
  5 or less the list is unchanged and the only effects are log lines.
\<close>

theorem record_appended_iff_score_above_5:
  assumes "parse_cfp_detail_page env url st = (Inr cfp, st1)"
    and "chain_evaluate env (evaluate_inputs abstract_text cfp)
           (log INFO (EvaluatingCFP (cfp_title cfp)) st1) = (Inr evaluation, st2)"
  shows "\<exists>st'. process_url env abstract_text url st = (None, st') \<and>
           files st' = files st \<and>
           (evaluated_results st' = evaluated_results st @ [match_record cfp evaluation]
              \<longleftrightarrow> 5 < score evaluation) \<and>
           (evaluated_results st' = evaluated_results st \<longleftrightarrow> score evaluation \<le> 5) \<and>
           (score evaluation \<le> 5 \<longrightarrow> only_logs st st')"
proof -
  have l1: "only_logs st st1"
    using assms(1) by (rule only_logs_parse_cfp_detail_page)
  have l2: "only_logs st1 st2"
    using only_logs_trans [OF only_logs_log only_logs_chain_evaluate [OF assms(2)]] .
  have l: "only_logs st st2"
    using l1 l2 by (rule only_logs_trans)
  then have same: "evaluated_results st2 = evaluated_results st" "files st2 = files st"
    by (simp_all add: only_logs_def)
  show ?thesis
  proof (cases "5 < score evaluation")
    case True
    let ?st' = "log INFO (RelevantCFP (cfp_title cfp) (score evaluation))
                  (append_result (match_record cfp evaluation) st2)"
    have "process_url env abstract_text url st = (None, ?st')"
      using assms True by (simp add: process_url_def try_body_def Let_def)
    moreover have "evaluated_results ?st' = evaluated_results st @ [match_record cfp evaluation]"
      "files ?st' = files st"
      using same by (simp_all add: log_fields append_result_fields)
    ultimately show ?thesis
      using True by auto
  next
    case False
    let ?st' = "log INFO (NotRelevantCFP (cfp_title cfp) (score evaluation)) st2"
    have "process_url env abstract_text url st = (None, ?st')"
      using assms False by (simp add: process_url_def try_body_def Let_def)
    moreover have "evaluated_results ?st' = evaluated_results st" "files ?st' = files st"
      using same by (simp_all add: log_fields)
    moreover have "only_logs st ?st'"
      using l only_logs_log by (rule only_logs_trans)
    ultimately show ?thesis
      using False by auto
  qed
qed

theorem record_appended_iff_score_above_5_witness:
  "\<exists>st'. process_url demo_env ''Quantum error correction''
            ''http://www.wikicfp.com/cfp/servlet/event.showcfp?eventid=1''
            (init_state Map.empty 0) = (None, st') \<and>
         evaluated_results st' =
           [match_record (extract_cfp demo_detail)
              \<lparr>score = 8, justification = ''Strong topical overlap''\<rparr>]"
proof -
  let ?url = "''http://www.wikicfp.com/cfp/servlet/event.showcfp?eventid=1''"
  let ?st1 = "log DEBUG
      (ExtractedCFP ''Intl. Conf. on Quantum Computing'' ''N/A'' ''N/A'' ''N/A'' ''N/A'')
      (log INFO (OpeningCFP ?url) (init_state Map.empty (0::nat)))"
  let ?st2 = "log INFO (EvaluatingCFP (cfp_title (extract_cfp demo_detail))) ?st1"
  have p: "parse_cfp_detail_page demo_env ?url (init_state Map.empty 0) =
      (Inr (extract_cfp demo_detail), ?st1)"
    unfolding demo_env_def by (rule site_parse_first)
  have c: "chain_evaluate demo_env
      (evaluate_inputs ''Quantum error correction'' (extract_cfp demo_detail)) ?st2 =
      (Inr \<lparr>score = 8, justification = ''Strong topical overlap''\<rparr>, ?st2\<lparr>world := Suc 0\<rparr>)"
    unfolding demo_env_def by (simp add: site_chain log_def init_state_def)
  have e: "evaluated_results (init_state Map.empty (0::nat)) = []"
    by (simp add: init_state_def)
  from record_appended_iff_score_above_5 [OF p c] show ?thesis
    unfolding e by auto
qed

section \<open>The output file\<close>

text \<open>
  Claim C2. At every write of a run, the path is the output path and the content is the
  serialization of all the records appended before that moment, of which there is at
  least one: the header line \<open>Title,Acronym,When,Where,Deadline,Score,Justification\<close>
  followed by one row per record, in order. The write replaces the file as a whole, and
  after the last write of the run the file holds exactly that content.
\<close>

theorem output_file_is_full_snapshot:
  assumes "main env abstract_file keyword output fs w = (r, st)"
    and "trace st = pre @ WriteFile p c # post"
  shows "p = output \<and> appended pre \<noteq> [] \<and> c = to_csv (appended pre) \<and>
         c = ''Title,Acronym,When,Where,Deadline,Score,Justification'' @ [CHR 0x0A] @
             concat (map (csv_row [''Title'', ''Acronym'', ''When'', ''Where'', ''Deadline'',
                                   ''Score'', ''Justification'']) (appended pre)) \<and>
         replay fs (pre @ [WriteFile p c]) = (replay fs pre)(output \<mapsto> c) \<and>
         (\<not> list_ex is_write post \<longrightarrow> files st output = Some c)"
proof -
  note facts = main_trace_facts [OF assms(1)]
  have w: "p = output" "appended pre \<noteq> []" "c = to_csv (appended pre)"
    using snapshots_at_write [of "output" "[]" pre p c post] facts(3) assms(2) by simp_all
  have "\<forall>rec \<in> set (appended pre). accepted_by env rec"
    using facts(4) assms(2) by (simp add: appended_append)
  then have shape: "to_csv (appended pre) =
      ''Title,Acronym,When,Where,Deadline,Score,Justification'' @ [CHR 0x0A] @
      concat (map (csv_row [''Title'', ''Acronym'', ''When'', ''Where'', ''Deadline'',
                            ''Score'', ''Justification'']) (appended pre))"
    using w(2) by (intro to_csv_accepted)
  have rewrite: "replay fs (pre @ [WriteFile p c]) = (replay fs pre)(output \<mapsto> c)"
    using w(1) by (simp add: replay_append)
  have last: "files st output = Some c" if "\<not> list_ex is_write post"
  proof -
    have "files st = replay (replay fs (pre @ [WriteFile p c])) post"
      using facts(2) assms(2) replay_append [of fs "pre @ [WriteFile p c]" post] by simp
    then have "files st = (replay fs pre)(output \<mapsto> c)"
      using that rewrite by (simp add: replay_no_write)
    then show ?thesis by simp
  qed
  show ?thesis
    using w shape rewrite last by simp
qed

theorem output_file_is_full_snapshot_witness:
  "appended demo_trace \<noteq> [] \<and> demo_csv = to_csv (appended demo_trace)"
proof -
  obtain r st where run:
    "main demo_env ''abstract.txt'' ''quantum'' ''conferences.csv'' Map.empty 0 = (r, st)"
    by (cases "main demo_env ''abstract.txt'' ''quantum'' ''conferences.csv'' Map.empty 0")
  have "trace st = demo_trace @ WriteFile ''conferences.csv'' demo_csv #
         [Log INFO (SavedTemporarily ''conferences.csv''),
          WriteFile ''conferences.csv'' demo_csv,
          Log INFO (SavedFinal ''conferences.csv'')]"
    using demo_run(2) [of Map.empty] run by simp
  from output_file_is_full_snapshot [OF run this] show ?thesis by simp
qed

text \<open>
  Claim C10. A run that ends with no accepted record, normally or by an exception, has
  written nothing: its trace has no write and its files are the files it started with.
\<close>

theorem no_write_while_nothing_accepted:
  assumes "main env abstract_file keyword output fs w = (r, st)"
    and "evaluated_results st = []"
  shows "\<not> list_ex is_write (trace st) \<and> files st = fs"
proof -
  note facts = main_trace_facts [OF assms(1)]
  have "\<not> list_ex is_write (trace st)"
    using snapshots_no_append [of "output" "[]" "trace st"] facts(1,3) assms(2) by simp
  then show ?thesis
    using facts(2) by (simp add: replay_no_write)
qed

theorem no_write_while_nothing_accepted_witness:
  "files
     (snd (main rejecting_env ''abstract.txt'' ''quantum'' ''conferences.csv''
             [''conferences.csv'' \<mapsto> ''kept''] 0)) ''conferences.csv'' = Some ''kept''"
proof -
  obtain r st where run:
    "main rejecting_env ''abstract.txt'' ''quantum'' ''conferences.csv''
       [''conferences.csv'' \<mapsto> ''kept''] 0 = (r, st)"
    by (cases "main rejecting_env ''abstract.txt'' ''quantum'' ''conferences.csv''
                 [''conferences.csv'' \<mapsto> ''kept''] 0")
  have "evaluated_results st = []"
    using rejecting_run(2) [of "[''conferences.csv'' \<mapsto> ''kept'']"] run by simp
  from no_write_while_nothing_accepted [OF run this] show ?thesis
    using run by simp
qed

section \<open>Failures of single items\<close>

















section \<open>The prompt\<close>

text \<open>
  Claim C7. For two conferences that agree on title, acronym, dates, place and deadline,
  and the same abstract, formatting the prompt succeeds with one and the same text, and
  the call of the chain is the call of the model with that text: the description has no
  part in what is sent.
\<close>

theorem prompt_excludes_description:
  assumes "cfp_title c1 = cfp_title c2" and "cfp_acronym c1 = cfp_acronym c2"
    and "cfp_when c1 = cfp_when c2" and "cfp_where c1 = cfp_where c2"
    and "cfp_deadline c1 = cfp_deadline c2"
  shows "\<exists>prompt. format_prompt prompt_template (evaluate_inputs a c1) = Inr prompt \<and>
            format_prompt prompt_template (evaluate_inputs a c2) = Inr prompt \<and>
            chain_evaluate env (evaluate_inputs a c1) st =
              (case llm_invoke env prompt (world st) of (r, w) \<Rightarrow> (r, st\<lparr>world := w\<rparr>)) \<and>
            chain_evaluate env (evaluate_inputs a c2) st =
              (case llm_invoke env prompt (world st) of (r, w) \<Rightarrow> (r, st\<lparr>world := w\<rparr>))"
proof -
  have "evaluate_inputs a c1 = evaluate_inputs a c2"
    using assms by (simp add: evaluate_inputs_def)
  moreover obtain prompt where "format_prompt prompt_template (evaluate_inputs a c2) = Inr prompt"
    using format_prompt_evaluate_inputs by blast
  ultimately show ?thesis
    by (simp add: chain_evaluate_def)
qed

theorem prompt_excludes_description_witness:
  "chain_evaluate demo_env
     (evaluate_inputs ''Quantum error correction''
        ((extract_cfp demo_detail)\<lparr>cfp_description := ''Topics: cooking''\<rparr>))
     (init_state Map.empty 0) =
   chain_evaluate demo_env
     (evaluate_inputs ''Quantum error correction'' (extract_cfp demo_detail))
     (init_state Map.empty 0)"
  using prompt_excludes_description
          [of "(extract_cfp demo_detail)\<lparr>cfp_description := ''Topics: cooking''\<rparr>"
              "extract_cfp demo_detail" "''Quantum error correction''" demo_env
              "init_state Map.empty 0"]
  by auto

section \<open>The range of accepted scores\<close>

text \<open>
  Claim C9, as stated, fails: the class of the verdict bounds nothing, so a model that
  answers 11 gets its records into \<open>evaluated_results\<close> and into the output file.
\<close>

theorem score_above_10_accepted:
  "evaluated_results
     (snd (main overscoring_env ''abstract.txt'' ''quantum'' ''conferences.csv'' Map.empty 0)) =
     [[(''Title'', VStr ''Intl. Conf. on Quantum Computing''),
       (''Acronym'', VStr ''N/A''), (''When'', VStr ''N/A''),
       (''Where'', VStr ''N/A''), (''Deadline'', VStr ''N/A''),
       (''Score'', VInt 11),
       (''Justification'', VStr ''Perfect fit'')],
      [(''Title'', VStr ''Intl. Conf. on Quantum Computing''),
       (''Acronym'', VStr ''N/A''), (''When'', VStr ''N/A''),
       (''Where'', VStr ''N/A''), (''Deadline'', VStr ''N/A''),
       (''Score'', VInt 11),
       (''Justification'', VStr ''Perfect fit'')]] \<and>
   files (snd (main overscoring_env ''abstract.txt'' ''quantum'' ''conferences.csv'' Map.empty 0))
     ''conferences.csv'' =
   Some (''Title,Acronym,When,Where,Deadline,Score,Justification'' @ [CHR 0x0A] @
     ''Intl. Conf. on Quantum Computing,N/A,N/A,N/A,N/A,11,Perfect fit'' @ [CHR 0x0A] @
     ''Intl. Conf. on Quantum Computing,N/A,N/A,N/A,N/A,11,Perfect fit'' @ [CHR 0x0A])"
  using overscoring_run [of Map.empty] by simp

text \<open>
  Claim C9, amended. Every record of \<open>evaluated_results\<close> was built from a verdict that the
  model service returned, carries that verdict's score, and the score is strictly greater
  than 5. It is at most 10 when the service returns no score above 10; the program itself
  checks no upper bound.
\<close>

theorem accepted_scores_above_5:
  assumes "main env abstract_file keyword out fs w = (r, st)"
    and "rec \<in> set (evaluated_results st)"
  shows "\<exists>cfp evaluation prompt w1 w2.
           rec = match_record cfp evaluation \<and>
           map_of rec ''Score'' = Some (VInt (score evaluation)) \<and>
           llm_invoke env prompt w1 = (Inr evaluation, w2) \<and>
           5 < score evaluation \<and>
           ((\<forall>p v v1 v2. llm_invoke env p v1 = (Inr v, v2) \<longrightarrow> score v \<le> 10)
              \<longrightarrow> score evaluation \<le> 10)"
proof -
  have "accepted_by env rec"
    using main_trace_facts(1,4) [OF assms(1)] assms(2) by simp
  then obtain cfp evaluation prompt w1 w2 where a:
    "rec = match_record cfp evaluation" "5 < score evaluation"
    "llm_invoke env prompt w1 = (Inr evaluation, w2)"
    unfolding accepted_by_def by blast
  have "map_of rec ''Score'' = Some (VInt (score evaluation))"
    using a(1) by (simp add: match_record_def)
  with a show ?thesis by blast
qed

theorem accepted_scores_above_5_witness:
  "\<exists>cfp evaluation.
      [(''Title'', VStr ''Intl. Conf. on Quantum Computing''),
       (''Acronym'', VStr ''N/A''), (''When'', VStr ''N/A''),
       (''Where'', VStr ''N/A''), (''Deadline'', VStr ''N/A''),
       (''Score'', VInt 8),
       (''Justification'', VStr ''Strong topical overlap'')] = match_record cfp evaluation \<and>
      5 < score evaluation \<and> score evaluation \<le> 10"
proof -
  let ?rec = "[(''Title'', VStr ''Intl. Conf. on Quantum Computing''),
       (''Acronym'', VStr ''N/A''), (''When'', VStr ''N/A''),
       (''Where'', VStr ''N/A''), (''Deadline'', VStr ''N/A''),
       (''Score'', VInt 8),
       (''Justification'', VStr ''Strong topical overlap'')]"
  obtain r st where run:
    "main demo_env ''abstract.txt'' ''quantum'' ''conferences.csv'' Map.empty 0 = (r, st)"
    by (cases "main demo_env ''abstract.txt'' ''quantum'' ''conferences.csv'' Map.empty 0")
  have "evaluated_results st = appended (trace st)"
    using main_trace_facts(1) [OF run] .
  then have mem: "?rec \<in> set (evaluated_results st)"
    using demo_run(2) [of Map.empty] run by (simp add: appended_append demo_trace_def)
  have bound: "\<forall>p v v1 v2. llm_invoke demo_env p v1 = (Inr v, v2) \<longrightarrow> score v \<le> 10"
    by (auto simp: demo_env_def site_env_def)
  from accepted_scores_above_5 [OF run mem] bound show ?thesis
    by blast
qed

section \<open>The detail extractor\<close>

lemma contains_sublist: "contains pat s \<longleftrightarrow> sublist pat s"
  by (induction s) (auto simp: sublist_Cons_right)

lemma scan_row_label:
  "scan_row row acc =
     (case row_label row of
        [] \<Rightarrow> acc
      | hc # _ \<Rightarrow>
          (case field_of_header (fst hc) of
             None \<Rightarrow> acc
           | Some FWhen \<Rightarrow> (snd hc, fst (snd acc), snd (snd acc))
           | Some FWhere \<Rightarrow> (fst acc, snd hc, snd (snd acc))
           | Some FDeadline \<Rightarrow> (fst acc, fst (snd acc), snd hc)))"
  by (cases acc)
     (simp add: scan_row_def row_label_def field_of_header_def Let_def split: option.splits)

lemma scan_rows_when:
  "fst (foldl (\<lambda>a row. scan_row row a) acc rows) =
     (case filter (\<lambda>hc. field_of_header (fst hc) = Some FWhen) (concat (map row_label rows)) of
        [] \<Rightarrow> fst acc
      | hc # hcs \<Rightarrow> snd (last (hc # hcs)))"
proof (induction rows rule: rev_induct)
  case Nil
  show ?case by simp
next
  case (snoc row rows)
  have l: "length (row_label row) \<le> 1"
    by (simp add: row_label_def split: option.splits)
  show ?case
  proof (cases "row_label row")
    case Nil
    with snoc show ?thesis by (simp add: scan_row_label)
  next
    case (Cons hc rest)
    with l have r: "row_label row = [hc]" by simp
    show ?thesis
      using snoc r
      by (cases "field_of_header (fst hc)")
         (auto simp: scan_row_label split: field.splits list.splits)
  qed
qed

lemma scan_rows_where:
  "fst (snd (foldl (\<lambda>a row. scan_row row a) acc rows)) =
     (case filter (\<lambda>hc. field_of_header (fst hc) = Some FWhere) (concat (map row_label rows)) of
        [] \<Rightarrow> fst (snd acc)
      | hc # hcs \<Rightarrow> snd (last (hc # hcs)))"
proof (induction rows rule: rev_induct)
  case Nil
  show ?case by simp
next
  case (snoc row rows)
  have l: "length (row_label row) \<le> 1"
    by (simp add: row_label_def split: option.splits)
  show ?case
  proof (cases "row_label row")
    case Nil
    with snoc show ?thesis by (simp add: scan_row_label)
  next
    case (Cons hc rest)
    with l have r: "row_label row = [hc]" by simp
    show ?thesis
      using snoc r
      by (cases "field_of_header (fst hc)")
         (auto simp: scan_row_label split: field.splits list.splits)
  qed
qed

lemma scan_rows_deadline:
  "snd (snd (foldl (\<lambda>a row. scan_row row a) acc rows)) =
     (case filter (\<lambda>hc. field_of_header (fst hc) = Some FDeadline) (concat (map row_label rows)) of
        [] \<Rightarrow> snd (snd acc)
      | hc # hcs \<Rightarrow> snd (last (hc # hcs)))"
proof (induction rows rule: rev_induct)
  case Nil
  show ?case by simp
next
  case (snoc row rows)
  have l: "length (row_label row) \<le> 1"
    by (simp add: row_label_def split: option.splits)
  show ?case
  proof (cases "row_label row")
    case Nil
    with snoc show ?thesis by (simp add: scan_row_label)
  next
    case (Cons hc rest)
    with l have r: "row_label row = [hc]" by simp
    show ?thesis
      using snoc r
      by (cases "field_of_header (fst hc)")
         (auto simp: scan_row_label split: field.splits list.splits)
  qed
qed

lemma scan_tables_rows:
  "foldl (\<lambda>a table. scan_table table a) acc tables =
   foldl (\<lambda>a row. scan_row row a) acc (concat (map (find_all ''tr'' any_tag) tables))"
  by (induction tables arbitrary: acc) (simp_all add: scan_table_def)

lemma concat_map_concat:
  "concat (map (\<lambda>x. concat (map f (g x))) xs) = concat (map f (concat (map g xs)))"
  by (induction xs) simp_all

lemma labelled_rows_concat:
  "labelled_rows soup =
     concat (map row_label
       (concat (map (find_all ''tr'' any_tag) (find_all ''table'' (class_is ''gglu'') soup))))"
  unfolding labelled_rows_def by (rule concat_map_concat)

lemma scan_tables_last_values:
  "scan_tables soup =
     (last_value FWhen (labelled_rows soup),
      last_value FWhere (labelled_rows soup),
      last_value FDeadline (labelled_rows soup))"
  unfolding scan_tables_def scan_tables_rows last_value_def labelled_rows_concat
  by (simp add: prod_eq_iff scan_rows_when scan_rows_where scan_rows_deadline
           split: list.splits)

text \<open>
  Claim C6. The dates, the place and the deadline of the extracted conference are read off
  the labelled rows of the page: a header stands for the first of \<open>when\<close>, \<open>where\<close> and
  \<open>submission deadline\<close> that occurs in its lower-cased text as a substring, and a field is
  the cell text of the last row whose header stands for it, later rows overwriting
  earlier ones.
\<close>

theorem labelled_fields_last_match_wins:
  "cfp_when (extract_cfp soup) = last_value FWhen (labelled_rows soup) \<and>
   cfp_where (extract_cfp soup) = last_value FWhere (labelled_rows soup) \<and>
   cfp_deadline (extract_cfp soup) = last_value FDeadline (labelled_rows soup) \<and>
   (\<forall>h. field_of_header h =
      (if sublist ''when'' (lower h) then Some FWhen
       else if sublist ''where'' (lower h) then Some FWhere
       else if sublist ''submission deadline'' (lower h) then Some FDeadline
       else None))"
  by (simp add: extract_cfp_def scan_tables_last_values field_of_header_def contains_sublist)

theorem labelled_fields_last_match_wins_witness:
  "cfp_when (extract_cfp two_dates_detail) = ''Jul 1, 2027'' \<and>
   cfp_where (extract_cfp two_dates_detail) = ''Paris'' \<and>
   cfp_deadline (extract_cfp two_dates_detail) = ''Jan 15, 2027''"
proof -
  have "labelled_rows two_dates_detail =
      [(''When'', ''Jun 1, 2027''), (''WHERE'', ''Paris''), (''when (new)'', ''Jul 1, 2027''),
       (''Submission Deadline'', ''Jan 15, 2027'')]"
    by (simp add: labelled_rows_def row_label_def two_dates_detail_def markup_defs)
  with labelled_fields_last_match_wins [of two_dates_detail] show ?thesis
    by (simp add: last_value_def field_of_header_def lower_def lower_char_def)
qed

lemma last_value_absent:
  "\<forall>hc \<in> set rows. field_of_header (fst hc) \<noteq> Some f \<Longrightarrow> last_value f rows = ''N/A''"
  by (simp add: last_value_def filter_empty_conv split: list.splits)

lemma parse_cfp_detail_page_fetched:
  assumes "fetch_soup env url (log INFO (OpeningCFP url) st) = (Inr soup, st1)"
  shows "parse_cfp_detail_page env url st =
     (Inr (extract_cfp soup),
      log DEBUG
        (ExtractedCFP (cfp_title (extract_cfp soup)) (cfp_acronym (extract_cfp soup))
           (cfp_when (extract_cfp soup)) (cfp_where (extract_cfp soup))
           (cfp_deadline (extract_cfp soup)))
        st1)"
  using assms by (simp add: parse_cfp_detail_page_def Let_def)

text \<open>
  Claim C4, as stated, fails in its last part: an element that is present and blank gives
  an empty field. On a page where all the elements are present and blank, the six fields
  of the returned conference are empty strings.
\<close>

theorem blank_elements_give_empty_fields:
  "fst (parse_cfp_detail_page blank_env
          ''http://www.wikicfp.com/cfp/servlet/event.showcfp?eventid=7''
          (init_state Map.empty 0)) =
   Inr \<lparr>cfp_title = [], cfp_acronym = [], cfp_when = [], cfp_where = [], cfp_deadline = [],
        cfp_description = []\<rparr>"
  by (simp add: parse_cfp_detail_page_def fetch_soup_def blank_env_def Let_def blank_detail_def
        markup_defs)

text \<open>
  Claim C4, amended. Once the detail page has been fetched, \<open>parse_cfp_detail_page\<close>
  returns a conference, whatever the page lacks. A field whose source element is absent is
  \<open>N/A\<close>: the title without a \<open>span\<close> of property \<open>v:description\<close>, the acronym
  when the first \<open>span\<close> of property \<open>v:summary\<close> is missing or has no \<open>content\<close>, the
  dates, the place and the deadline without a labelled row that stands for them, the
  description without a \<open>div\<close> of class \<open>cfp\<close>. A field whose element is present is the
  stripped text of that element, which may be empty.
\<close>

theorem parse_total_absent_fields_sentinel:
  assumes "fetch_soup env url (log INFO (OpeningCFP url) st) = (Inr soup, st1)"
  shows "\<exists>cfp st2. parse_cfp_detail_page env url st = (Inr cfp, st2) \<and>
     (case find ''span'' (attr_is ''property'' ''v:description'') soup of
        None \<Rightarrow> cfp_title cfp = ''N/A''
      | Some title_tag \<Rightarrow> cfp_title cfp = get_text_strip title_tag) \<and>
     (case find ''span'' (attr_is ''property'' ''v:summary'') soup of
        None \<Rightarrow> cfp_acronym cfp = ''N/A''
      | Some acronym_tag \<Rightarrow>
          (case get_attr acronym_tag ''content'' of
             None \<Rightarrow> cfp_acronym cfp = ''N/A''
           | Some content \<Rightarrow> cfp_acronym cfp = strip content)) \<and>
     ((\<forall>hc \<in> set (labelled_rows soup). field_of_header (fst hc) \<noteq> Some FWhen)
        \<longrightarrow> cfp_when cfp = ''N/A'') \<and>
     ((\<forall>hc \<in> set (labelled_rows soup). field_of_header (fst hc) \<noteq> Some FWhere)
        \<longrightarrow> cfp_where cfp = ''N/A'') \<and>
     ((\<forall>hc \<in> set (labelled_rows soup). field_of_header (fst hc) \<noteq> Some FDeadline)
        \<longrightarrow> cfp_deadline cfp = ''N/A'') \<and>
     cfp_when cfp = last_value FWhen (labelled_rows soup) \<and>
     cfp_where cfp = last_value FWhere (labelled_rows soup) \<and>
     cfp_deadline cfp = last_value FDeadline (labelled_rows soup) \<and>
     (case find ''div'' (class_is ''cfp'') soup of
        None \<Rightarrow> cfp_description cfp = ''N/A''
      | Some cfp_div \<Rightarrow> cfp_description cfp = strip (get_text_sep [CHR 0x0A] cfp_div))"
proof -
  let ?cfp = "extract_cfp soup"
  have fields: "cfp_when ?cfp = last_value FWhen (labelled_rows soup)"
    "cfp_where ?cfp = last_value FWhere (labelled_rows soup)"
    "cfp_deadline ?cfp = last_value FDeadline (labelled_rows soup)"
    by (simp_all add: extract_cfp_def scan_tables_last_values)
  have title: "case find ''span'' (attr_is ''property'' ''v:description'') soup of
        None \<Rightarrow> cfp_title ?cfp = ''N/A''
      | Some title_tag \<Rightarrow> cfp_title ?cfp = get_text_strip title_tag"
    by (simp add: extract_cfp_def extract_title_def split: option.splits prod.splits)
  have acronym: "case find ''span'' (attr_is ''property'' ''v:summary'') soup of
        None \<Rightarrow> cfp_acronym ?cfp = ''N/A''
      | Some acronym_tag \<Rightarrow>
          (case get_attr acronym_tag ''content'' of
             None \<Rightarrow> cfp_acronym ?cfp = ''N/A''
           | Some content \<Rightarrow> cfp_acronym ?cfp = strip content)"
    by (simp add: extract_cfp_def extract_acronym_def split: option.splits prod.splits)
  have description: "case find ''div'' (class_is ''cfp'') soup of
        None \<Rightarrow> cfp_description ?cfp = ''N/A''
      | Some cfp_div \<Rightarrow> cfp_description ?cfp = strip (get_text_sep [CHR 0x0A] cfp_div)"
    by (simp add: extract_cfp_def extract_description_def split: option.splits prod.splits)
  show ?thesis
    using parse_cfp_detail_page_fetched [OF assms] fields title acronym description
    by (simp add: last_value_absent)
qed

theorem parse_total_absent_fields_sentinel_witness:
  "\<exists>st2. parse_cfp_detail_page demo_env
            ''http://www.wikicfp.com/cfp/servlet/event.showcfp?eventid=1''
            (init_state Map.empty 0) =
          (Inr \<lparr>cfp_title = ''Intl. Conf. on Quantum Computing'', cfp_acronym = ''N/A'',
                cfp_when = ''N/A'', cfp_where = ''N/A'', cfp_deadline = ''N/A'',
                cfp_description = ''N/A''\<rparr>, st2)"
proof -
  let ?url = "''http://www.wikicfp.com/cfp/servlet/event.showcfp?eventid=1''"
  have f: "fetch_soup demo_env ?url (log INFO (OpeningCFP ?url) (init_state Map.empty 0)) =
      (Inr demo_detail, log INFO (OpeningCFP ?url) (init_state Map.empty 0))"
    unfolding demo_env_def by (simp add: site_fetch demo_urls_def)
  from parse_total_absent_fields_sentinel [OF f] obtain cfp st2 where
    "parse_cfp_detail_page demo_env ?url (init_state Map.empty 0) = (Inr cfp, st2)"
    by blast
  moreover have "parse_cfp_detail_page demo_env ?url (init_state Map.empty 0) =
      (Inr (extract_cfp demo_detail), snd (parse_cfp_detail_page demo_env ?url (init_state Map.empty 0)))"
    unfolding demo_env_def by (simp add: site_parse_first)
  ultimately show ?thesis
    by (simp add: demo_cfp)
qed

section \<open>The listing scraper\<close>

lemma link_href_matches:
  "href_matches n \<longleftrightarrow> (\<exists>href. get_attr n ''href'' = Some href \<and> sublist ''event.showcfp'' href)"
  by (auto simp: href_matches_def contains_sublist split: option.splits)

lemma is_tag_Element: "is_tag name n \<longleftrightarrow> (\<exists>a cs. n = Element name a cs)"
  by (cases n) auto

text \<open>
  Claim C8, as stated, fails in one part: the scraper does not resolve a link target, it
  writes \<open>http://www.wikicfp.com\<close> in front of it. A target that is already an
  absolute URL is therefore not returned as it is, and a target without a leading slash
  is glued to the host name: neither element of the result below is the absolute URL of
  a link of the page.
\<close>

theorem targets_prefixed_not_resolved:
  "fst (search_wikicfp_page unrooted_env ''quantum'' (Suc 0) (init_state Map.empty 0)) =
     Inr {''http://www.wikicfp.comhttp://www.wikicfp.com/cfp/servlet/event.showcfp?eventid=1'',
          ''http://www.wikicfp.comevent.showcfp?eventid=2''} \<and>
   ''http://www.wikicfp.com/cfp/servlet/event.showcfp?eventid=1'' \<notin>
     {''http://www.wikicfp.comhttp://www.wikicfp.com/cfp/servlet/event.showcfp?eventid=1'',
      ''http://www.wikicfp.comevent.showcfp?eventid=2''}"
  by (simp add: search_wikicfp_page_def fetch_soup_def unrooted_env_def unrooted_listing_def
        Let_def markup_defs)

text \<open>
  Claim C8, amended. Once the listing page has been fetched, \<open>search_wikicfp_page\<close>
  returns a set: a URL is in it exactly when some anchor of the page has a link target
  that contains \<open>event.showcfp\<close> and the URL is that target with
  \<open>http://www.wikicfp.com\<close> written in front of it, whatever the form of the target.
  Being a set, the result has every URL once, however many anchors lead to it, and no
  order; it is finite, with at most as many URLs as there are such anchors.
\<close>

theorem listing_urls_are_marked_targets:
  assumes "fetch_soup env
             (''http://www.wikicfp.com/cfp/call?conference='' @ keyword @ ''&page='' @ str_of_nat page)
             (log INFO (SearchingPage page keyword) st) = (Inr soup, st1)"
  shows "\<exists>urls. search_wikicfp_page env keyword page st =
                  (Inr urls, log INFO (FoundOnPage (card urls) page) st1) \<and>
     (\<forall>u. u \<in> urls \<longleftrightarrow>
        (\<exists>a cs href. Element ''a'' a cs \<in> set (descendants soup) \<and>
           map_of a ''href'' = Some href \<and> sublist ''event.showcfp'' href \<and>
           u = ''http://www.wikicfp.com'' @ href)) \<and>
     finite urls \<and> card urls \<le> length (detail_links soup)"
proof -
  have s: "search_wikicfp_page env keyword page st =
      (Inr (detail_urls soup), log INFO (FoundOnPage (card (detail_urls soup)) page) st1)"
    using assms by (simp add: search_wikicfp_page_def Let_def)
  have m: "u \<in> detail_urls soup \<longleftrightarrow>
        (\<exists>a cs href. Element ''a'' a cs \<in> set (descendants soup) \<and>
           map_of a ''href'' = Some href \<and> sublist ''event.showcfp'' href \<and>
           u = ''http://www.wikicfp.com'' @ href)" for u
  proof
    assume "u \<in> detail_urls soup"
    then obtain link where l: "link \<in> set (descendants soup)" "is_tag ''a'' link"
        "href_matches link" "u = base_url @ link_href link"
      by (auto simp: detail_urls_def detail_links_def find_all_def)
    from l(2) obtain a cs where e: "link = Element ''a'' a cs"
      using is_tag_Element by blast
    from l(3) obtain href where h: "get_attr link ''href'' = Some href"
        "sublist ''event.showcfp'' href"
      using link_href_matches by blast
    show "\<exists>a cs href. Element ''a'' a cs \<in> set (descendants soup) \<and>
           map_of a ''href'' = Some href \<and> sublist ''event.showcfp'' href \<and>
           u = ''http://www.wikicfp.com'' @ href"
      using l(1,4) e h by (auto simp: link_href_def base_url_def)
  next
    assume "\<exists>a cs href. Element ''a'' a cs \<in> set (descendants soup) \<and>
           map_of a ''href'' = Some href \<and> sublist ''event.showcfp'' href \<and>
           u = ''http://www.wikicfp.com'' @ href"
    then obtain a cs href where x: "Element ''a'' a cs \<in> set (descendants soup)"
        "map_of a ''href'' = Some href" "sublist ''event.showcfp'' href"
        "u = ''http://www.wikicfp.com'' @ href"
      by blast
    have "href_matches (Element ''a'' a cs)"
      using x(2,3) by (simp add: link_href_matches)
    then have "Element ''a'' a cs \<in> set (detail_links soup)"
      using x(1) by (simp add: detail_links_def find_all_def)
    moreover have "u = base_url @ link_href (Element ''a'' a cs)"
      using x(2,4) by (simp add: link_href_def base_url_def)
    ultimately show "u \<in> detail_urls soup"
      unfolding detail_urls_def by auto
  qed
  have "card (detail_urls soup) \<le> length (detail_links soup)"
    unfolding detail_urls_def using card_length [of "map (\<lambda>link. base_url @ link_href link) (detail_links soup)"]
    by simp
  moreover have "finite (detail_urls soup)"
    by (simp add: detail_urls_def)
  ultimately show ?thesis
    using s m by blast
qed

theorem listing_urls_are_marked_targets_witness:
  "length (detail_links demo_listing) = 4 \<and>
   fst (search_wikicfp_page demo_env ''quantum'' (Suc 0) (init_state Map.empty 0)) =
     Inr {''http://www.wikicfp.com/cfp/servlet/event.showcfp?eventid=1'',
          ''http://www.wikicfp.com/cfp/servlet/event.showcfp?eventid=2'',
          ''http://www.wikicfp.com/cfp/servlet/event.showcfp?eventid=3''}"
proof -
  let ?st = "log INFO (SearchingPage (Suc 0) ''quantum'') (init_state Map.empty (0::nat))"
  have f: "fetch_soup demo_env
      (''http://www.wikicfp.com/cfp/call?conference='' @ ''quantum'' @ ''&page='' @ str_of_nat (Suc 0))
      ?st = (Inr demo_listing, ?st)"
    unfolding demo_env_def by (simp add: site_fetch demo_urls_def str_of_nat.simps digit_char_def)
  have l: "length (detail_links demo_listing) = 4"
    by (simp add: demo_listing_def markup_defs)
  from listing_urls_are_marked_targets [OF f] obtain urls where
    u: "search_wikicfp_page demo_env ''quantum'' (Suc 0) (init_state Map.empty 0) =
      (Inr urls, log INFO (FoundOnPage (card urls) (Suc 0)) ?st)"
    by blast
  have "search_wikicfp_page demo_env ''quantum'' (Suc 0) (init_state Map.empty 0) =
      (Inr (set demo_urls), log INFO (FoundOnPage 3 (Suc 0)) ?st)"
    unfolding demo_env_def by (rule site_search)
  with u l show ?thesis
    by (simp add: demo_urls_def)
qed

section \<open>The page-count resolver\<close>

lemma rx_plus_greedy:
  assumes "\<And>a c r. p c \<Longrightarrow> k a (c # r) = None"
  shows "rx_plus p acc s k =
     (if takeWhile p s = [] then None else k (acc @ takeWhile p s) (dropWhile p s))"
proof (induction s arbitrary: acc)
  case Nil
  show ?case by simp
next
  case (Cons c cs)
  show ?case
  proof (cases "p c")
    case False
    then show ?thesis by simp
  next
    case True
    show ?thesis
    proof (cases "takeWhile p cs = []")
      case e: True
      then have "dropWhile p cs = cs"
        using takeWhile_dropWhile_id [of p cs] by simp
      with True e Cons.IH [of "acc @ [c]"] show ?thesis by simp
    next
      case ne: False
      then obtain d ds where "cs = d # ds" "p d"
        by (cases cs) (auto split: if_splits)
      then have "k (acc @ [c]) cs = None"
        using assms by simp
      with True ne Cons.IH [of "acc @ [c]"] show ?thesis
        by (simp split: option.splits)
    qed
  qed
qed

lemma rx_plus_Some:
  assumes "\<And>a c r. p c \<Longrightarrow> k a (c # r) = None"
    and "rx_plus p [] s k = Some g"
  shows "\<exists>ws rest. s = ws @ rest \<and> ws \<noteq> [] \<and> list_all p ws \<and> k ws rest = Some g"
proof -
  have "takeWhile p s \<noteq> []" "k (takeWhile p s) (dropWhile p s) = Some g"
    using assms(2) rx_plus_greedy [of p k "[]" s, OF assms(1)]
    by (simp_all split: if_splits)
  moreover have "s = takeWhile p s @ dropWhile p s" by simp
  moreover have "list_all p (takeWhile p s)"
    by (auto simp: list_all_iff dest: set_takeWhileD)
  ultimately show ?thesis by blast
qed

lemma rx_plus_run:
  assumes "\<And>a c r. p c \<Longrightarrow> k a (c # r) = None"
    and "ws \<noteq> []" and "list_all p ws" and "rest = [] \<or> \<not> p (hd rest)"
  shows "rx_plus p [] (ws @ rest) k = k ws rest"
proof -
  have "takeWhile p (ws @ rest) = ws" "dropWhile p (ws @ rest) = rest"
    using assms(3,4) by (cases rest; simp add: list_all_iff)+
  with assms(2) show ?thesis
    using rx_plus_greedy [of p k "[]" "ws @ rest", OF assms(1)] by simp
qed

lemma rx_lit_Some:
  assumes "rx_lit l s k = Some g"
  shows "\<exists>rest. s = l @ rest \<and> k rest = Some g"
proof -
  from assms have p: "prefix l s" and k: "k (drop (length l) s) = Some g"
    by (simp_all add: rx_lit_def split: if_splits)
  from p obtain rest where "s = l @ rest"
    by (rule prefixE)
  with k show ?thesis by simp
qed

lemma rx_lit_run: "rx_lit l (l @ rest) k = k rest"
  by (simp add: rx_lit_def)

lemma space_not_digit: "is_space c \<Longrightarrow> \<not> is_digit c"
  by (auto simp: is_space_def is_digit_def)

lemma digit_not_space: "is_digit c \<Longrightarrow> \<not> is_space c"
  using space_not_digit by blast

lemma blanksD: "blanks ws \<Longrightarrow> ws \<noteq> [] \<and> list_all is_space ws \<and> is_space (hd ws)"
  by (cases ws) (simp_all add: blanks_def)

lemma digitsD: "digits ds \<Longrightarrow> ds \<noteq> [] \<and> list_all is_digit ds \<and> is_digit (hd ds)"
  by (cases ds) (simp_all add: digits_def)

text \<open>
  No backtracking ever succeeds in this pattern: each \<open>+\<close> is followed by something that
  cannot start with a character of its class, so each run is taken whole. A match at the
  head of a string is therefore a phrase at its head, and the other way round.
\<close>

lemma match_here_phrase: "match_here s = Some g \<longleftrightarrow> phrase_at_head s g"
proof -
  define k8 where "k8 = (\<lambda>g (_::string) s. rx_lit ''pages'' s (\<lambda>_. Some (g::string)))"
  define k7 where "k7 = (\<lambda>g s. rx_plus is_space [] s (k8 g))"
  define k6 where "k6 = (\<lambda>(_::string) s. rx_plus is_digit [] s k7)"
  define k5 where "k5 = (\<lambda>s. rx_plus is_space [] s k6)"
  define k4 where "k4 = (\<lambda>(_::string) s. rx_lit ''CFPs in'' s k5)"
  define k3 where "k3 = (\<lambda>(_::string) s. rx_plus is_space [] s k4)"
  define k2 where "k2 = (\<lambda>(_::string) s. rx_plus is_digit [] s k3)"
  define k1 where "k1 = (\<lambda>s. rx_plus is_space [] s k2)"
  have m: "match_here s = rx_lit ''Total of'' s k1" for s
    unfolding match_here_def k1_def k2_def k3_def k4_def k5_def k6_def k7_def k8_def ..
  have c2: "k2 a (c # r) = None" if "is_space c" for a c r
    using that by (simp add: k2_def space_not_digit)
  have c3: "k3 a (c # r) = None" if "is_digit c" for a c r
    using that by (simp add: k3_def digit_not_space)
  have c4: "k4 a (c # r) = None" if "is_space c" for a c r
    using that by (auto simp: k4_def rx_lit_def is_space_def)
  have c6: "k6 a (c # r) = None" if "is_space c" for a c r
    using that by (simp add: k6_def space_not_digit)
  have c7: "k7 a (c # r) = None" if "is_digit c" for a c r
    using that by (simp add: k7_def digit_not_space)
  have c8: "k8 g a (c # r) = None" if "is_space c" for g a c r
    using that by (auto simp: k8_def rx_lit_def is_space_def)
  show ?thesis
  proof
    assume "match_here s = Some g"
    then have 0: "rx_lit ''Total of'' s k1 = Some g"
      by (simp add: m)
    from rx_lit_Some [OF 0] obtain r1 where 1: "s = ''Total of'' @ r1" "k1 r1 = Some g"
      by blast
    from 1(2) have "rx_plus is_space [] r1 k2 = Some g"
      by (simp add: k1_def)
    from rx_plus_Some [of is_space k2 r1 g, OF c2 this]
    obtain ws1 r2 where 2: "r1 = ws1 @ r2" "ws1 \<noteq> []" "list_all is_space ws1"
        "k2 ws1 r2 = Some g"
      by blast
    from 2(4) have "rx_plus is_digit [] r2 k3 = Some g"
      by (simp add: k2_def)
    from rx_plus_Some [of is_digit k3 r2 g, OF c3 this]
    obtain n r3 where 3: "r2 = n @ r3" "n \<noteq> []" "list_all is_digit n" "k3 n r3 = Some g"
      by blast
    from 3(4) have "rx_plus is_space [] r3 k4 = Some g"
      by (simp add: k3_def)
    from rx_plus_Some [of is_space k4 r3 g, OF c4 this]
    obtain ws2 r4 where 4: "r3 = ws2 @ r4" "ws2 \<noteq> []" "list_all is_space ws2"
        "k4 ws2 r4 = Some g"
      by blast
    from 4(4) have "rx_lit ''CFPs in'' r4 k5 = Some g"
      by (simp add: k4_def)
    from rx_lit_Some [OF this] obtain r5 where 5: "r4 = ''CFPs in'' @ r5" "k5 r5 = Some g"
      by blast
    from 5(2) have "rx_plus is_space [] r5 k6 = Some g"
      by (simp add: k5_def)
    from rx_plus_Some [of is_space k6 r5 g, OF c6 this]
    obtain ws3 r6 where 6: "r5 = ws3 @ r6" "ws3 \<noteq> []" "list_all is_space ws3"
        "k6 ws3 r6 = Some g"
      by blast
    from 6(4) have "rx_plus is_digit [] r6 k7 = Some g"
      by (simp add: k6_def)
    from rx_plus_Some [of is_digit k7 r6 g, OF c7 this]
    obtain p r7 where 7: "r6 = p @ r7" "p \<noteq> []" "list_all is_digit p" "k7 p r7 = Some g"
      by blast
    from 7(4) have "rx_plus is_space [] r7 (k8 p) = Some g"
      by (simp add: k7_def)
    from rx_plus_Some [of is_space "k8 p" r7 g, OF c8 this]
    obtain ws4 r8 where 8: "r7 = ws4 @ r8" "ws4 \<noteq> []" "list_all is_space ws4"
        "k8 p ws4 r8 = Some g"
      by blast
    from 8(4) have "rx_lit ''pages'' r8 (\<lambda>_. Some p) = Some g"
      by (simp add: k8_def)
    from rx_lit_Some [OF this] obtain rest where 9: "r8 = ''pages'' @ rest" "p = g"
      by auto
    have "s = ''Total of'' @ ws1 @ n @ ws2 @ ''CFPs in'' @ ws3 @ g @ ws4 @ ''pages'' @ rest"
      using 1(1) 2(1) 3(1) 4(1) 5(1) 6(1) 7(1) 8(1) 9 by simp
    moreover have "blanks ws1" "digits n" "blanks ws2" "blanks ws3" "digits g" "blanks ws4"
      using 2(2,3) 3(2,3) 4(2,3) 6(2,3) 7(2,3) 8(2,3) 9(2)
      by (simp_all add: blanks_def digits_def)
    ultimately show "phrase_at_head s g"
      unfolding phrase_at_head_def by blast
  next
    assume "phrase_at_head s g"
    then obtain ws1 n ws2 ws3 ws4 rest where
      s: "s = ''Total of'' @ ws1 @ n @ ws2 @ ''CFPs in'' @ ws3 @ g @ ws4 @ ''pages'' @ rest"
      and b: "blanks ws1" "digits n" "blanks ws2" "blanks ws3" "digits g" "blanks ws4"
      unfolding phrase_at_head_def by blast
    note b1 = blanksD [OF b(1)] and b2 = blanksD [OF b(3)] and b3 = blanksD [OF b(4)]
      and b4 = blanksD [OF b(6)] and d1 = digitsD [OF b(2)] and d2 = digitsD [OF b(5)]
    have np: "\<not> is_space CHR ''p''" and nc: "\<not> is_space CHR ''C''"
      by (simp_all add: is_space_def)
    have 8: "k8 g ws4 (''pages'' @ rest) = Some g"
      by (simp add: k8_def rx_lit_def)
    have "rx_plus is_space [] (ws4 @ ''pages'' @ rest) (k8 g) = k8 g ws4 (''pages'' @ rest)"
      using b4 np by (intro rx_plus_run c8) simp_all
    with 8 have 7: "k7 g (ws4 @ ''pages'' @ rest) = Some g"
      by (simp add: k7_def)
    have "rx_plus is_digit [] (g @ ws4 @ ''pages'' @ rest) k7 = k7 g (ws4 @ ''pages'' @ rest)"
      using d2 b4 space_not_digit [of "hd ws4"] by (intro rx_plus_run c7) simp_all
    with 7 have 6: "k6 ws3 (g @ ws4 @ ''pages'' @ rest) = Some g"
      by (simp add: k6_def)
    have "rx_plus is_space [] (ws3 @ g @ ws4 @ ''pages'' @ rest) k6 =
        k6 ws3 (g @ ws4 @ ''pages'' @ rest)"
      using b3 d2 digit_not_space [of "hd g"] by (intro rx_plus_run c6) simp_all
    with 6 have 5: "k5 (ws3 @ g @ ws4 @ ''pages'' @ rest) = Some g"
      by (simp add: k5_def)
    have 4: "k4 ws2 (''CFPs in'' @ ws3 @ g @ ws4 @ ''pages'' @ rest) = Some g"
      unfolding k4_def using 5 by (simp add: rx_lit_def)
    have "rx_plus is_space [] (ws2 @ ''CFPs in'' @ ws3 @ g @ ws4 @ ''pages'' @ rest) k4 =
        k4 ws2 (''CFPs in'' @ ws3 @ g @ ws4 @ ''pages'' @ rest)"
      using b2 nc by (intro rx_plus_run c4) simp_all
    with 4 have 3: "k3 n (ws2 @ ''CFPs in'' @ ws3 @ g @ ws4 @ ''pages'' @ rest) = Some g"
      by (simp add: k3_def)
    have "rx_plus is_digit [] (n @ ws2 @ ''CFPs in'' @ ws3 @ g @ ws4 @ ''pages'' @ rest) k3 =
        k3 n (ws2 @ ''CFPs in'' @ ws3 @ g @ ws4 @ ''pages'' @ rest)"
      using d1 b2 space_not_digit [of "hd ws2"] by (intro rx_plus_run c3) simp_all
    with 3 have 2: "k2 ws1 (n @ ws2 @ ''CFPs in'' @ ws3 @ g @ ws4 @ ''pages'' @ rest) = Some g"
      by (simp add: k2_def)
    have "rx_plus is_space []
          (ws1 @ n @ ws2 @ ''CFPs in'' @ ws3 @ g @ ws4 @ ''pages'' @ rest) k2 =
        k2 ws1 (n @ ws2 @ ''CFPs in'' @ ws3 @ g @ ws4 @ ''pages'' @ rest)"
      using b1 d1 digit_not_space [of "hd n"] by (intro rx_plus_run c2) simp_all
    with 2 have 1: "k1 (ws1 @ n @ ws2 @ ''CFPs in'' @ ws3 @ g @ ws4 @ ''pages'' @ rest) = Some g"
      by (simp add: k1_def)
    show "match_here s = Some g"
      unfolding m s using 1 by (simp add: rx_lit_def)
  qed
qed

lemma phrase_at_head_unique: "phrase_at_head s g \<Longrightarrow> phrase_at_head s g' \<Longrightarrow> g = g'"
  using match_here_phrase [of s] by (metis option.inject)

lemma phrase_at_head_Nil: "\<not> phrase_at_head [] g"
  by (simp add: phrase_at_head_def)

lemma has_phrase_Nil: "\<not> has_phrase [] g"
  by (simp add: has_phrase_def phrase_at_head_Nil)

lemma has_phrase_Cons: "has_phrase (c # cs) g \<longleftrightarrow> phrase_at_head (c # cs) g \<or> has_phrase cs g"
proof
  assume "has_phrase (c # cs) g"
  then obtain pre s where ps: "c # cs = pre @ s" "phrase_at_head s g"
    unfolding has_phrase_def by blast
  show "phrase_at_head (c # cs) g \<or> has_phrase cs g"
  proof (cases pre)
    case Nil
    with ps show ?thesis by simp
  next
    case (Cons d pre')
    with ps have "cs = pre' @ s" by simp
    with ps(2) show ?thesis unfolding has_phrase_def by blast
  qed
next
  assume "phrase_at_head (c # cs) g \<or> has_phrase cs g"
  then show "has_phrase (c # cs) g"
  proof
    assume "phrase_at_head (c # cs) g"
    then have "c # cs = [] @ (c # cs) \<and> phrase_at_head (c # cs) g" by simp
    then show ?thesis unfolding has_phrase_def by blast
  next
    assume "has_phrase cs g"
    then obtain pre s where "cs = pre @ s" "phrase_at_head s g"
      unfolding has_phrase_def by blast
    then have "c # cs = (c # pre) @ s \<and> phrase_at_head s g" by simp
    then show ?thesis unfolding has_phrase_def by blast
  qed
qed

lemma first_phrase_at_head:
  assumes "phrase_at_head text g"
  shows "first_phrase text g' \<longleftrightarrow> g' = g"
proof
  assume "first_phrase text g'"
  then obtain pre s where f: "text = pre @ s" "phrase_at_head s g'"
      "\<forall>pre' s' p. text = pre' @ s' \<and> length pre' < length pre \<longrightarrow> \<not> phrase_at_head s' p"
    unfolding first_phrase_def by blast
  have "pre = []"
  proof (rule ccontr)
    assume "pre \<noteq> []"
    then have "text = [] @ text \<and> length ([]::string) < length pre" by simp
    with f(3) assms show False by blast
  qed
  with f(1,2) assms show "g' = g"
    using phrase_at_head_unique by simp
next
  assume "g' = g"
  with assms have "text = [] @ text \<and> phrase_at_head text g' \<and>
      (\<forall>pre' s' p. text = pre' @ s' \<and> length pre' < length ([]::string) \<longrightarrow> \<not> phrase_at_head s' p)"
    by simp
  then show "first_phrase text g'"
    unfolding first_phrase_def by blast
qed

lemma first_phrase_Cons:
  assumes "\<forall>p. \<not> phrase_at_head (c # cs) p"
  shows "first_phrase (c # cs) g \<longleftrightarrow> first_phrase cs g"
proof
  assume "first_phrase (c # cs) g"
  then obtain pre s where f: "c # cs = pre @ s" "phrase_at_head s g"
      "\<forall>pre' s' p. c # cs = pre' @ s' \<and> length pre' < length pre \<longrightarrow> \<not> phrase_at_head s' p"
    unfolding first_phrase_def by blast
  from f(1,2) assms obtain pre2 where p2: "pre = c # pre2" "cs = pre2 @ s"
    by (cases pre) auto
  have "\<not> phrase_at_head s' p" if "cs = pre' @ s'" "length pre' < length pre2" for pre' s' p
  proof -
    from that p2 have "c # cs = (c # pre') @ s' \<and> length (c # pre') < length pre" by simp
    with f(3) show ?thesis by blast
  qed
  with p2(2) f(2) show "first_phrase cs g"
    unfolding first_phrase_def by blast
next
  assume "first_phrase cs g"
  then obtain pre s where f: "cs = pre @ s" "phrase_at_head s g"
      "\<forall>pre' s' p. cs = pre' @ s' \<and> length pre' < length pre \<longrightarrow> \<not> phrase_at_head s' p"
    unfolding first_phrase_def by blast
  have "\<not> phrase_at_head s' p"
    if "c # cs = pre' @ s'" "length pre' < length (c # pre)" for pre' s' p
  proof (cases pre')
    case Nil
    with that(1) assms show ?thesis by simp
  next
    case (Cons d pre'')
    with that have "cs = pre'' @ s' \<and> length pre'' < length pre" by simp
    with f(3) show ?thesis by blast
  qed
  moreover from f(1) have "c # cs = (c # pre) @ s" by simp
  ultimately show "first_phrase (c # cs) g"
    using f(2) unfolding first_phrase_def by blast
qed

text \<open>\<open>re.search\<close> finds the leftmost phrase, and fails exactly when there is none.\<close>

lemma re_search_first_phrase: "re_search s = Some g \<longleftrightarrow> first_phrase s g"
proof (induction s)
  case Nil
  have "\<not> first_phrase [] g"
    by (simp add: first_phrase_def phrase_at_head_Nil)
  moreover have "match_here [] \<noteq> Some g"
    using match_here_phrase [of "[]" g] phrase_at_head_Nil by simp
  ultimately show ?case by simp
next
  case (Cons c cs)
  show ?case
  proof (cases "match_here (c # cs)")
    case None
    then have "\<forall>p. \<not> phrase_at_head (c # cs) p"
      using match_here_phrase [of "c # cs"] by simp
    with None Cons show ?thesis
      by (simp add: first_phrase_Cons)
  next
    case (Some g')
    then have "phrase_at_head (c # cs) g'"
      using match_here_phrase by simp
    with Some show ?thesis
      using first_phrase_at_head [of "c # cs" g' g] by auto
  qed
qed

lemma re_search_None: "re_search s = None \<longleftrightarrow> (\<forall>p. \<not> has_phrase s p)"
proof (induction s)
  case Nil
  have "match_here [] = None"
    using match_here_phrase [of "[]"] phrase_at_head_Nil by (cases "match_here []") auto
  then show ?case by (simp add: has_phrase_Nil)
next
  case (Cons c cs)
  show ?case
  proof (cases "match_here (c # cs)")
    case None
    then have "\<forall>p. \<not> phrase_at_head (c # cs) p"
      using match_here_phrase [of "c # cs"] by simp
    with None Cons show ?thesis
      by (simp add: has_phrase_Cons)
  next
    case (Some g')
    then have "phrase_at_head (c # cs) g'"
      using match_here_phrase by simp
    then have "has_phrase (c # cs) g'"
      by (simp add: has_phrase_Cons)
    with Some show ?thesis by auto
  qed
qed

lemma first_phrase_has_phrase: "first_phrase text g \<Longrightarrow> has_phrase text g"
  unfolding first_phrase_def has_phrase_def by blast

lemma has_phrase_first_phrase: "has_phrase s g \<Longrightarrow> \<exists>g'. first_phrase s g'"
  using re_search_None [of s] re_search_first_phrase [of s]
  by (cases "re_search s") auto

lemma has_phrase_contains: "has_phrase text g \<Longrightarrow> contains ''Total of'' text"
  unfolding has_phrase_def phrase_at_head_def contains_sublist sublist_def by blast

lemma scan_cells_skip:
  "\<forall>p. \<not> has_phrase (get_text_strip td) p \<Longrightarrow> scan_cells (td # tds) = scan_cells tds"
  using re_search_None [of "get_text_strip td"] by (simp add: Let_def)

lemma scan_cells_hit:
  assumes "first_phrase (get_text_strip td) g"
  shows "scan_cells (td # tds) = Some (int_of_digits g)"
  using assms re_search_first_phrase [of "get_text_strip td" g]
    has_phrase_contains [OF first_phrase_has_phrase [OF assms]]
  by (simp add: Let_def)

lemma scan_cells_none:
  "\<forall>td \<in> set tds. \<forall>p. \<not> has_phrase (get_text_strip td) p \<Longrightarrow> scan_cells tds = None"
  by (induction tds) (simp_all add: scan_cells_skip del: scan_cells.simps(2))

lemma scan_cells_first:
  assumes "\<forall>td \<in> set before. \<forall>p. \<not> has_phrase (get_text_strip td) p"
    and "first_phrase (get_text_strip cell) g"
  shows "scan_cells (before @ cell # after) = Some (int_of_digits g)"
  using assms(1)
  by (induction before)
     (simp_all add: scan_cells_skip scan_cells_hit [OF assms(2)] del: scan_cells.simps(2))

lemma digit_val_digit_char: "d < 10 \<Longrightarrow> digit_val (digit_char d) = d"
proof -
  assume "d < 10"
  then have "d \<in> {0, 1, 2, 3, 4, 5, 6, 7, 8, 9}" by auto
  then show ?thesis
    by (auto simp: digit_val_def digit_char_def)
qed

lemma int_of_digits_str_of_nat: "int_of_digits (str_of_nat n) = n"
proof (induction n rule: str_of_nat.induct)
  case (1 n)
  show ?case
  proof (cases "n < 10")
    case True
    then show ?thesis
      by (simp add: str_of_nat.simps [of n] int_of_digits_def digit_val_digit_char)
  next
    case False
    with 1 have "int_of_digits (str_of_nat (n div 10)) = n div 10" by simp
    with False show ?thesis
      by (simp add: str_of_nat.simps [of n] int_of_digits_def digit_val_digit_char)
  qed
qed

text \<open>
  Claim C5. Once the listing page has been fetched, \<open>get_total_pages\<close> returns a number and
  raises nothing. The text of a cell is what \<open>get_text(strip=True)\<close> gives for it. When
  some centred cell has a phrase of the shape \<open>Total of N CFPs in P pages\<close> in its text,
  the result is the number written by the digits \<open>P\<close> of the leftmost phrase of the first
  such cell, and this is logged; when no centred cell has such a phrase, the result is 1
  and a warning is logged. The digits are read as a decimal numeral.
\<close>

theorem total_pages_from_phrase:
  assumes "fetch_soup env (''http://www.wikicfp.com/cfp/call?conference='' @ keyword)
             (log INFO (TotalPagesLookup keyword) st) = (Inr soup, st1)"
  shows "(\<exists>n st2. get_total_pages env keyword st = (Inr n, st2)) \<and>
     (\<forall>before cell after pages.
        find_all ''td'' (attr_is ''align'' ''center'') soup = before @ cell # after \<and>
        (\<forall>td \<in> set before. \<forall>p. \<not> has_phrase (get_text_strip td) p) \<and>
        first_phrase (get_text_strip cell) pages \<longrightarrow>
        get_total_pages env keyword st =
          (Inr (int_of_digits pages), log INFO (TotalPagesFound (int_of_digits pages)) st1)) \<and>
     ((\<exists>td \<in> set (find_all ''td'' (attr_is ''align'' ''center'') soup).
         \<exists>p. has_phrase (get_text_strip td) p) \<longrightarrow>
      (\<exists>before cell after pages.
         find_all ''td'' (attr_is ''align'' ''center'') soup = before @ cell # after \<and>
         (\<forall>td \<in> set before. \<forall>p. \<not> has_phrase (get_text_strip td) p) \<and>
         first_phrase (get_text_strip cell) pages)) \<and>
     ((\<forall>td \<in> set (find_all ''td'' (attr_is ''align'' ''center'') soup).
         \<forall>p. \<not> has_phrase (get_text_strip td) p) \<longrightarrow>
      get_total_pages env keyword st = (Inr 1, log WARNING TotalPagesDefault st1)) \<and>
     (\<forall>n. int_of_digits (str_of_nat n) = n)"
proof -
  let ?cells = "find_all ''td'' (attr_is ''align'' ''center'') soup"
  have g: "get_total_pages env keyword st =
      (case scan_cells ?cells of
         Some total_pages \<Rightarrow> (Inr total_pages, log INFO (TotalPagesFound total_pages) st1)
       | None \<Rightarrow> (Inr 1, log WARNING TotalPagesDefault st1))"
    using assms by (simp add: get_total_pages_def Let_def)
  have total: "\<exists>n st2. get_total_pages env keyword st = (Inr n, st2)"
    unfolding g by (cases "scan_cells ?cells") simp_all
  have found: "get_total_pages env keyword st =
      (Inr (int_of_digits pages), log INFO (TotalPagesFound (int_of_digits pages)) st1)"
    if "?cells = before @ cell # after"
      "\<forall>td \<in> set before. \<forall>p. \<not> has_phrase (get_text_strip td) p"
      "first_phrase (get_text_strip cell) pages" for before cell after pages
    unfolding g that(1) using scan_cells_first [OF that(2,3)] by simp
  have first: "\<exists>before cell after pages. ?cells = before @ cell # after \<and>
         (\<forall>td \<in> set before. \<forall>p. \<not> has_phrase (get_text_strip td) p) \<and>
         first_phrase (get_text_strip cell) pages"
    if "\<exists>td \<in> set ?cells. \<exists>p. has_phrase (get_text_strip td) p"
  proof -
    from that obtain before cell after where s: "?cells = before @ cell # after"
        "\<exists>p. has_phrase (get_text_strip cell) p"
        "\<forall>td \<in> set before. \<not> (\<exists>p. has_phrase (get_text_strip td) p)"
      using split_list_first_prop [of ?cells "\<lambda>td. \<exists>p. has_phrase (get_text_strip td) p"]
      by blast
    from s(2) obtain pages where "first_phrase (get_text_strip cell) pages"
      using has_phrase_first_phrase by blast
    with s(1,3) show ?thesis by blast
  qed
  have default: "get_total_pages env keyword st = (Inr 1, log WARNING TotalPagesDefault st1)"
    if "\<forall>td \<in> set ?cells. \<forall>p. \<not> has_phrase (get_text_strip td) p"
    unfolding g using scan_cells_none [OF that] by simp
  show ?thesis
    using total found first default int_of_digits_str_of_nat by blast
qed

theorem total_pages_from_phrase_witness:
  "get_total_pages two_pages_env ''quantum'' (init_state Map.empty 0) =
     (Inr 2,
      log INFO (TotalPagesFound 2)
        (log INFO (TotalPagesLookup ''quantum'') (init_state Map.empty 0)))"
proof -
  let ?st = "log INFO (TotalPagesLookup ''quantum'') (init_state Map.empty (0::nat))"
  let ?c1 = "Element ''td'' [(''align'', ''center'')] [Text ''Total of CFPs'']"
  let ?c2 = "Element ''td'' [(''align'', ''center'')] [Text '' Total of 23 CFPs in 2 pages '']"
  have f: "fetch_soup two_pages_env (''http://www.wikicfp.com/cfp/call?conference='' @ ''quantum'')
      ?st = (Inr two_pages_listing, ?st)"
    by (simp add: fetch_soup_def two_pages_env_def log_def init_state_def)
  have cells: "find_all ''td'' (attr_is ''align'' ''center'') two_pages_listing = [?c1] @ ?c2 # []"
    by (simp add: two_pages_listing_def find_all_def attr_is_def)
  have "re_search (get_text_strip ?c1) = None"
    by (simp add: get_text_strip_def strip_def match_here_def rx_lit_def is_space_def is_digit_def)
  then have none: "\<forall>td \<in> set [?c1]. \<forall>p. \<not> has_phrase (get_text_strip td) p"
    using re_search_None [of "get_text_strip ?c1"] by simp
  have "re_search (get_text_strip ?c2) = Some ''2''"
    by (simp add: get_text_strip_def strip_def match_here_def rx_lit_def is_space_def is_digit_def)
  then have first: "first_phrase (get_text_strip ?c2) ''2''"
    using re_search_first_phrase [of "get_text_strip ?c2" "''2''"] by simp
  have v: "int_of_digits ''2'' = 2"
    by (simp add: int_of_digits_def digit_val_def)
  have "\<forall>before cell after pages.
        find_all ''td'' (attr_is ''align'' ''center'') two_pages_listing = before @ cell # after \<and>
        (\<forall>td \<in> set before. \<forall>p. \<not> has_phrase (get_text_strip td) p) \<and>
        first_phrase (get_text_strip cell) pages \<longrightarrow>
        get_total_pages two_pages_env ''quantum'' (init_state Map.empty 0) =
          (Inr (int_of_digits pages), log INFO (TotalPagesFound (int_of_digits pages)) ?st)"
    using total_pages_from_phrase [OF f] by (elim conjE)
  then have "get_total_pages two_pages_env ''quantum'' (init_state Map.empty 0) =
      (Inr (int_of_digits ''2''), log INFO (TotalPagesFound (int_of_digits ''2'')) ?st)"
    using cells none first by (elim allE [of _ "[?c1]"] allE [of _ ?c2] allE [of _ "[]"] allE [of _ "''2''"]) (rule mp, assumption, intro conjI)
  then show ?thesis
    unfolding v .
qed

end
